(* ===== verification/Prelude.thy ===== *)
theory Prelude
  imports Main
begin

text \<open>
  Shared vocabulary of the Connect-Four development (\<open>src/src/main.py\<close>):
  \<^item> \<open>py_error\<close>: the Python exceptions the program can raise;
  \<^item> \<open>pyval\<close>: the two kinds of Python value that reach the board as a piece
    (the driver passes the ints \<open>0\<close>/\<open>1\<close>, the search passes the strings
    \<open>'0'\<close>/\<open>'1'\<close>), with \<open>py_str\<close> = Python's \<open>str()\<close>;
  \<^item> \<open>escore\<close>: search scores, Python ints together with the floats
    \<open>-math.inf\<close>/\<open>math.inf\<close>, as a linear order;
  \<^item> \<open>fishburn\<close>: the fail-soft alpha-beta contract of a returned score against the
    true minimax value, and the order lemmas the search proofs share.
\<close>

section \<open>Python errors and values\<close>

datatype py_error = ValueError | TypeError | IndexError

datatype pyval = PyInt int | PyStr string

text \<open>\<open>str(n)\<close> for a Python int: decimal digits, a leading minus sign if negative.\<close>

fun nat_str :: "nat \<Rightarrow> string" where
  "nat_str n =
     (if n < 10 then [char_of (48 + n)]
      else nat_str (n div 10) @ [char_of (48 + n mod 10)])"

declare nat_str.simps [simp del]

definition int_str :: "int \<Rightarrow> string" where
  "int_str i = (if i < 0 then CHR ''-'' # nat_str (nat (- i)) else nat_str (nat i))"

fun py_str :: "pyval \<Rightarrow> string" where
  "py_str (PyInt i) = int_str i"
| "py_str (PyStr s) = s"

lemma int_str_0 [simp]: "int_str 0 = ''0''"
  by code_simp

lemma int_str_1 [simp]: "int_str 1 = ''1''"
  by code_simp

section \<open>Scores with infinities\<close>

text \<open>
  The search compares Python ints with the floats \<open>-math.inf\<close> and \<open>math.inf\<close>
  (initial \<open>value\<close>, \<open>alpha\<close>, \<open>beta\<close>); every finite score is an int.
\<close>

datatype escore = NegInf | Fin int | PosInf

instantiation escore :: linorder
begin

fun less_eq_escore :: "escore \<Rightarrow> escore \<Rightarrow> bool" where
  "less_eq_escore NegInf y = True"
| "less_eq_escore (Fin x) NegInf = False"
| "less_eq_escore (Fin x) (Fin y) = (x \<le> y)"
| "less_eq_escore (Fin x) PosInf = True"
| "less_eq_escore PosInf y = (y = PosInf)"

definition less_escore :: "escore \<Rightarrow> escore \<Rightarrow> bool" where
  "less_escore x y = (x \<le> y \<and> \<not> y \<le> x)"

instance
proof
  fix x y z :: escore
  show "x < y \<longleftrightarrow> x \<le> y \<and> \<not> y \<le> x"
    by (simp add: less_escore_def)
  show "x \<le> x"
    by (cases x) simp_all
  show "x \<le> y \<Longrightarrow> y \<le> z \<Longrightarrow> x \<le> z"
    by (cases x; cases y; cases z) simp_all
  show "x \<le> y \<Longrightarrow> y \<le> x \<Longrightarrow> x = y"
    by (cases x; cases y) simp_all
  show "x \<le> y \<or> y \<le> x"
    by (cases x; cases y) auto
qed

end

named_theorems escore_order "order facts on escore used by the search proofs"

lemma NegInf_least [simp, escore_order]: "NegInf \<le> x"
  by simp

lemma PosInf_greatest [simp, escore_order]: "x \<le> PosInf"
  by (cases x) simp_all

lemma Fin_less_Fin [simp, escore_order]: "Fin x < Fin y \<longleftrightarrow> x < y"
  by (auto simp: less_escore_def)

lemma NegInf_less_Fin [simp, escore_order]: "NegInf < Fin x"
  by (simp add: less_escore_def)

lemma Fin_less_PosInf [simp, escore_order]: "Fin x < PosInf"
  by (simp add: less_escore_def)

lemma NegInf_less_PosInf [simp, escore_order]: "NegInf < PosInf"
  by (simp add: less_escore_def)

lemma not_less_NegInf [simp, escore_order]: "\<not> x < NegInf"
  by (cases x) (simp_all add: less_escore_def)

lemma not_PosInf_less [simp, escore_order]: "\<not> PosInf < x"
  by (cases x) (simp_all add: less_escore_def)

lemma le_NegInf_iff [simp, escore_order]: "x \<le> NegInf \<longleftrightarrow> x = NegInf"
  by (cases x) simp_all

lemma PosInf_le_iff [simp, escore_order]: "PosInf \<le> x \<longleftrightarrow> x = PosInf"
  by simp

lemma max_NegInf [simp]: "max NegInf x = x" "max x NegInf = x"
  by (simp_all add: max_def)

lemma min_PosInf [simp]: "min PosInf x = x" "min x PosInf = x"
  by (simp_all add: min_def)

section \<open>The fail-soft contract\<close>

text \<open>
  \<open>fishburn a b v r\<close>: the score \<open>r\<close> returned for the window \<open>(a, b)\<close> is the true
  value \<open>v\<close> when it lies strictly inside the window, an upper bound of \<open>v\<close> when it
  fails low and a lower bound when it fails high.
\<close>

definition fishburn :: "'a::linorder \<Rightarrow> 'a \<Rightarrow> 'a \<Rightarrow> 'a \<Rightarrow> bool" where
  "fishburn a b v r \<longleftrightarrow>
     (r \<le> a \<longrightarrow> v \<le> r) \<and> (a < r \<and> r < b \<longrightarrow> r = v) \<and> (b \<le> r \<longrightarrow> r \<le> v)"

lemma fishburn_clip:
  fixes a :: "'a::linorder"
  assumes "a < b" and "fishburn a b v r"
  shows "max a (min r b) = max a (min v b)"
  using assms unfolding fishburn_def
  by (cases "r \<le> a"; cases "b \<le> r") (auto simp: max_def min_def)

lemma fishburn_full_window:
  "fishburn (NegInf :: escore) PosInf v r \<Longrightarrow> r = v"
  by (cases r) (auto simp: fishburn_def)


text \<open>
  One iteration of the maximising loop: the window's lower end rises to the running
  maximum; the result of the remaining loop, related to the raised window, is related to
  the original window (\<open>fishburn_step_max\<close>), and a cut-off returns a lower bound
  (\<open>fishburn_break_max\<close>). The minimising loop is dual.
\<close>

lemma fishburn_refl: "fishburn a b v v"
  by (simp add: fishburn_def)

lemma fishburn_step_max:
  fixes alpha :: "'a::linorder"
  assumes "value \<le> alpha" and "fishburn alpha beta t s"
    and "max alpha (max value s) < beta" and "max value s \<le> v"
    and "fishburn (max alpha (max value s)) beta (max (max value s) R) v"
  shows "fishburn alpha beta (max value (max t R)) v"
  using assms unfolding fishburn_def
  by (cases "s \<le> alpha") (auto simp: max_def split: if_splits)

lemma fishburn_break_max:
  fixes alpha :: "'a::linorder"
  assumes "value \<le> alpha" and "alpha < beta" and "fishburn alpha beta t s"
    and "beta \<le> max alpha (max value s)"
  shows "fishburn alpha beta (max value (max t R)) (max value s)"
  using assms unfolding fishburn_def
  by (auto simp: max_def split: if_splits)

lemma fishburn_step_min:
  fixes alpha :: "'a::linorder"
  assumes "beta \<le> value" and "fishburn alpha beta t s"
    and "alpha < min beta (min value s)" and "v \<le> min value s"
    and "fishburn alpha (min beta (min value s)) (min (min value s) R) v"
  shows "fishburn alpha beta (min value (min t R)) v"
  using assms unfolding fishburn_def
  by (cases "beta \<le> s") (auto simp: min_def split: if_splits)

lemma fishburn_break_min:
  fixes alpha :: "'a::linorder"
  assumes "beta \<le> value" and "alpha < beta" and "fishburn alpha beta t s"
    and "min beta (min value s) \<le> alpha"
  shows "fishburn alpha beta (min value (min t R)) (min value s)"
  using assms unfolding fishburn_def
  by (auto simp: min_def split: if_splits)

section \<open>Lists\<close>

text \<open>Overwriting the first element that stops a \<open>takeWhile\<close> extends its result.\<close>

lemma takeWhile_update_first:
  assumes "k = length (takeWhile P xs)" and "k < length xs" and "P x"
    and "Suc k < length xs \<Longrightarrow> \<not> P (xs ! Suc k)"
  shows "takeWhile P (xs[k := x]) = takeWhile P xs @ [x]"
  using assms
proof (induction xs arbitrary: k)
  case Nil
  then show ?case by simp
next
  case (Cons y ys)
  show ?case
  proof (cases "P y")
    case True
    with Cons.prems obtain k' where k: "k = Suc k'" "k' = length (takeWhile P ys)"
      by simp
    with Cons.prems True show ?thesis using Cons.IH [of k'] by simp
  next
    case False
    with Cons.prems have "k = 0" by simp
    with Cons.prems False show ?thesis by (cases ys) auto
  qed
qed


lemma list_ex_upt: "list_ex P [a..<b] \<longleftrightarrow> (\<exists>x. a \<le> x \<and> x < b \<and> P x)"
  by (auto simp: list_ex_iff)

lemma upt_4: "[0..<4] = [0, 1, 2, 3 :: nat]"
  by (simp add: upt_rec)

lemma length_takeWhile_eq_iff: "length (takeWhile P xs) = length xs \<longleftrightarrow> (\<forall>x \<in> set xs. P x)"
  by (induction xs) auto

text \<open>Overwriting a cell that does not hold \<open>x\<close> with \<open>x\<close> adds one occurrence.\<close>

lemma count_list_update_fresh:
  "i < length xs \<Longrightarrow> xs ! i \<noteq> x \<Longrightarrow> count_list (xs[i := x]) x = Suc (count_list xs x)"
  by (induction xs arbitrary: i) (auto split: nat.splits)

section \<open>Integer positions read as list indices\<close>

lemma nat_int_plus_one [simp]: "nat (int c + 1) = Suc c"
  by simp

lemma nat_int_plus_numeral [simp]: "nat (int c + numeral k) = c + numeral k"
  by (simp add: nat_add_distrib)

lemma nat_int_minus_one [simp]: "nat (int c - 1) = c - 1"
  by simp

lemma nat_int_minus_numeral [simp]: "nat (int c - numeral k) = c - numeral k"
  by (metis nat_int nat_minus_as_int of_nat_numeral)

end
