(* ===== verification/Board.thy ===== *)
theory Board
  imports Prelude
begin

text \<open>
  The game state, class \<open>Board\<close> of \<open>src/src/main.py\<close> (lines 5--75 and
  \<open>print_board\<close>, 62--67): the \<open>6 \<times> 7\<close> grid of one-character strings (row 0 is the
  top, \<open>' '\<close> is an empty cell), the move history, the last move and the unused
  \<open>valid_locations\<close> field. \<open>play\<close> returns the updated board or the exception it
  raises. The theory proves that \<open>play\<close> succeeds exactly on the legal columns, keeps
  the grid's shape and the gravity invariant, and refines a board of column stacks:
  legality is "the stack is not full", and the stacks are the history replayed column
  by column. \<open>print_board\<close> is shown to draw every cell at a fixed place of its text.
\<close>

section \<open>State and operations\<close>

definition ROWS :: nat where "ROWS = 6"

definition COLS :: nat where "COLS = 7"

lemmas board_dims = ROWS_def COLS_def

type_synonym grid = "string list list"

record board =
  grid :: grid
  history :: "(pyval \<times> int) list"
  last_move :: "(nat \<times> int) option"
  valid_locations :: "int list"

definition new_board :: board where
  "new_board =
     \<lparr>grid = replicate ROWS (replicate COLS '' ''), history = [], last_move = None,
      valid_locations = []\<rparr>"

definition can_play :: "board \<Rightarrow> int \<Rightarrow> bool" where
  "can_play b col \<longleftrightarrow> 0 \<le> col \<and> col < int COLS \<and> grid b ! 0 ! nat col = '' ''"

text \<open>The loop of \<open>get_next_open_row\<close>: rows \<open>r - 1, \<dots>, 0\<close>, bottom first.\<close>

fun find_open_row :: "grid \<Rightarrow> nat \<Rightarrow> nat \<Rightarrow> nat option" where
  "find_open_row g col 0 = None"
| "find_open_row g col (Suc r) =
     (if g ! r ! col = '' '' then Some r else find_open_row g col r)"

definition get_next_open_row :: "board \<Rightarrow> nat \<Rightarrow> nat option" where
  "get_next_open_row b col = find_open_row (grid b) col ROWS"

text \<open>
  \<open>play\<close>: \<open>ValueError\<close> on an illegal column; a \<open>None\<close> row would make
  \<open>self.board[None]\<close> raise \<open>TypeError\<close> (proved unreachable below).
\<close>

definition play :: "board \<Rightarrow> int \<Rightarrow> pyval \<Rightarrow> py_error + board" where
  "play b col piece =
     (if \<not> can_play b col then Inl ValueError
      else case get_next_open_row b (nat col) of
        None \<Rightarrow> Inl TypeError
      | Some row \<Rightarrow>
          Inr (b\<lparr>grid := (grid b)[row := (grid b ! row)[nat col := py_str piece]],
                 last_move := Some (row, col),
                 history := history b @ [(piece, col)]\<rparr>))"

definition get_valid_locations :: "board \<Rightarrow> int list" where
  "get_valid_locations b = filter (can_play b) (map int [0..<COLS])"

definition py_join :: "string \<Rightarrow> string list \<Rightarrow> string" where
  "py_join sep xs = (case xs of [] \<Rightarrow> [] | x # ys \<Rightarrow> x @ concat (map (\<lambda>y. sep @ y) ys))"

definition print_board :: "board \<Rightarrow> string" where
  "print_board b =
     (let rows = map (\<lambda>row. ''|'' @ py_join ''|'' row @ ''|'') (grid b);
          board_str = py_join ''\<newline>'' rows;
          col_str = '' '' @ py_join '' '' (map (\<lambda>i. int_str (int i)) [0..<COLS])
      in board_str @ ''\<newline>'' @ col_str)"

section \<open>Invariants\<close>

text \<open>Shape: \<open>ROWS\<close> rows of \<open>COLS\<close> cells.\<close>

definition wf_grid :: "grid \<Rightarrow> bool" where
  "wf_grid g \<longleftrightarrow> length g = ROWS \<and> list_all (\<lambda>row. length row = COLS) g"

text \<open>Gravity: a filled cell has a filled cell below it.\<close>

definition gravity :: "grid \<Rightarrow> bool" where
  "gravity g \<longleftrightarrow>
     list_all (\<lambda>r. list_all (\<lambda>c. g ! r ! c \<noteq> '' '' \<longrightarrow> g ! Suc r ! c \<noteq> '' '')
                    [0..<COLS]) [0..<ROWS - 1]"

text \<open>The board invariant: shape and gravity.\<close>

definition board_inv :: "grid \<Rightarrow> bool" where
  "board_inv g \<longleftrightarrow> wf_grid g \<and> gravity g"


section \<open>The open-row search\<close>

lemma find_open_row_Some:
  "find_open_row g c n = Some r \<Longrightarrow>
     r < n \<and> g ! r ! c = '' '' \<and> (\<forall>r'. r < r' \<and> r' < n \<longrightarrow> g ! r' ! c \<noteq> '' '')"
proof (induction n)
  case 0
  then show ?case by simp
next
  case (Suc n)
  then show ?case
    by (auto split: if_splits simp: less_Suc_eq)
qed

lemma find_open_row_top:
  "g ! 0 ! c = '' '' \<Longrightarrow> 0 < n \<Longrightarrow> \<exists>r. find_open_row g c n = Some r"
  by (induction n) auto

text \<open>The scan counts the filled cells from the bottom of the column.\<close>

lemma find_open_row_takeWhile:
  "find_open_row g c n =
     (let k = length (takeWhile (\<lambda>r. g ! r ! c \<noteq> '' '') (rev [0..<n]))
      in if k = n then None else Some (n - 1 - k))"
  by (induction n) (auto simp: Let_def)

section \<open>\<open>play\<close>: result and errors\<close>

definition drop_piece :: "grid \<Rightarrow> nat \<Rightarrow> nat \<Rightarrow> string \<Rightarrow> grid" where
  "drop_piece g row col s = g[row := (g ! row)[col := s]]"

lemma play_illegal: "\<not> can_play b col \<Longrightarrow> play b col p = Inl ValueError"
  by (simp add: play_def)

lemma play_legal:
  assumes "can_play b col"
  obtains row where "get_next_open_row b (nat col) = Some row"
    and "play b col p =
           Inr (b\<lparr>grid := drop_piece (grid b) row (nat col) (py_str p),
                  last_move := Some (row, col), history := history b @ [(p, col)]\<rparr>)"
proof -
  from assms have "grid b ! 0 ! nat col = '' ''" by (simp add: can_play_def)
  then obtain row where "get_next_open_row b (nat col) = Some row"
    using find_open_row_top [of "grid b" "nat col" ROWS]
    by (auto simp: get_next_open_row_def ROWS_def)
  with assms that show ?thesis
    by (simp add: play_def drop_piece_def)
qed

lemma play_InrE:
  assumes "play b col p = Inr b'"
  obtains row where "can_play b col" and "get_next_open_row b (nat col) = Some row"
    and "b' = b\<lparr>grid := drop_piece (grid b) row (nat col) (py_str p),
                last_move := Some (row, col), history := history b @ [(p, col)]\<rparr>"
  using assms
  by (auto simp: play_def drop_piece_def split: if_splits option.splits)

section \<open>Legal columns\<close>

lemma get_valid_locations_iff: "col \<in> set (get_valid_locations b) \<longleftrightarrow> can_play b col"
  by (auto simp: get_valid_locations_def can_play_def image_iff intro: bexI [of _ "nat col"])

lemma sorted_get_valid_locations: "sorted (get_valid_locations b)"
  unfolding get_valid_locations_def
  by (rule sorted_wrt_filter) (simp add: sorted_map)

lemma distinct_get_valid_locations: "distinct (get_valid_locations b)"
  by (simp add: get_valid_locations_def distinct_map inj_on_def)

text \<open>
  C14. get_valid_locations lists every legal column exactly once, in ascending order,
  and nothing else.
\<close>

theorem get_valid_locations_spec:
  "sorted (get_valid_locations b) \<and> distinct (get_valid_locations b) \<and>
   set (get_valid_locations b) = {col. can_play b col}"
  using sorted_get_valid_locations distinct_get_valid_locations get_valid_locations_iff
  by blast

text \<open>
  C11. play raises an exception exactly when the column is illegal (out of range or
  full), and the exception is always ValueError, never the TypeError of a missing row.
\<close>

lemma play_Inl_iff: "play b col p = Inl e \<longleftrightarrow> \<not> can_play b col \<and> e = ValueError"
proof (cases "can_play b col")
  case True
  then obtain b' where "play b col p = Inr b'" by (metis play_legal)
  with True show ?thesis by simp
next
  case False
  then show ?thesis by (auto simp: play_illegal)
qed

lemma play_Inr_iff: "(\<exists>b'. play b col p = Inr b') \<longleftrightarrow> can_play b col"
  by (metis Inl_Inr_False play_illegal play_legal)

section \<open>Shape and gravity are invariant\<close>

lemma drop_piece_nth [simp]:
  "r0 < length g \<Longrightarrow> c0 < length (g ! r0) \<Longrightarrow>
     drop_piece g r0 c0 s ! r ! c = (if r = r0 \<and> c = c0 then s else g ! r ! c)"
  by (cases "r = r0") (auto simp: drop_piece_def)

lemma length_drop_piece [simp]: "length (drop_piece g r0 c0 s) = length g"
  by (simp add: drop_piece_def)

lemma wf_grid_nth: "wf_grid g \<Longrightarrow> r < ROWS \<Longrightarrow> length (g ! r) = COLS"
  by (simp add: wf_grid_def list_all_length)

lemma length_drop_piece_nth [simp]:
  "n < length g \<Longrightarrow> length (drop_piece g r0 c0 s ! n) = length (g ! n)"
  by (cases "n = r0") (simp_all add: drop_piece_def)

lemma wf_grid_drop_piece: "wf_grid g \<Longrightarrow> wf_grid (drop_piece g r0 c0 s)"
  by (simp add: wf_grid_def list_all_length)

lemma gravity_iff:
  "gravity g \<longleftrightarrow>
     (\<forall>r c. Suc r < ROWS \<longrightarrow> c < COLS \<longrightarrow> g ! r ! c \<noteq> '' '' \<longrightarrow> g ! Suc r ! c \<noteq> '' '')"
  by (auto simp: gravity_def list_all_iff)

text \<open>The cell \<open>play\<close> fills: empty, in range, and every cell below it is filled.\<close>

lemma play_row:
  assumes "can_play b col" and "get_next_open_row b (nat col) = Some row"
  shows "row < ROWS" and "nat col < COLS" and "grid b ! row ! nat col = '' ''"
    and "\<And>r'. row < r' \<Longrightarrow> r' < ROWS \<Longrightarrow> grid b ! r' ! nat col \<noteq> '' ''"
  using assms find_open_row_Some [of "grid b" "nat col" ROWS row]
  by (auto simp: get_next_open_row_def can_play_def)

lemma play_wf_grid:
  "wf_grid (grid b) \<Longrightarrow> play b col p = Inr b' \<Longrightarrow> wf_grid (grid b')"
  by (auto elim: play_InrE simp: wf_grid_drop_piece)

lemma play_gravity:
  assumes wf: "wf_grid (grid b)" and grav: "gravity (grid b)" and ok: "play b col p = Inr b'"
  shows "gravity (grid b')"
proof -
  from ok obtain row where cp: "can_play b col" and r: "get_next_open_row b (nat col) = Some row"
    and b': "b' = b\<lparr>grid := drop_piece (grid b) row (nat col) (py_str p),
                    last_move := Some (row, col), history := history b @ [(p, col)]\<rparr>"
    by (rule play_InrE)
  note cell = play_row [OF cp r]
  have len: "row < length (grid b)" "nat col < length (grid b ! row)"
    using wf cell(1,2) by (auto simp: wf_grid_def wf_grid_nth)
  have "gravity (drop_piece (grid b) row (nat col) (py_str p))"
    unfolding gravity_iff
  proof (intro allI impI)
    fix r c
    assume rc: "Suc r < ROWS" "c < COLS"
      and filled: "drop_piece (grid b) row (nat col) (py_str p) ! r ! c \<noteq> '' ''"
    show "drop_piece (grid b) row (nat col) (py_str p) ! Suc r ! c \<noteq> '' ''"
    proof (cases "r = row \<and> c = nat col")
      case True
      with cell(4) [of "Suc r"] rc len show ?thesis by simp
    next
      case False
      with filled len have "grid b ! r ! c \<noteq> '' ''" by (simp split: if_splits)
      with grav rc have "grid b ! Suc r ! c \<noteq> '' ''" by (simp add: gravity_iff)
      with cell(3) len show ?thesis by auto
    qed
  qed
  then show ?thesis by (simp add: b')
qed

text \<open>
  C12. play keeps the board invariant: a well-shaped grid in which every filled cell has
  a filled cell below it stays so.
\<close>

theorem play_board_inv:
  "board_inv (grid b) \<Longrightarrow> play b col p = Inr b' \<Longrightarrow> board_inv (grid b')"
  unfolding board_inv_def using play_wf_grid play_gravity by blast

lemma play_history:
  "play b col p = Inr b' \<Longrightarrow>
     history b' = history b @ [(p, col)] \<and> (\<exists>row. last_move b' = Some (row, col))"
  by (auto elim: play_InrE)


section \<open>Refinement: a board of column stacks\<close>

text \<open>
  Abstractly a board is seven stacks, bottom piece first: \<open>col_cells g c\<close> reads
  column \<open>c\<close> from the bottom row up and \<open>column g c\<close> keeps its filled
  prefix. Under the gravity invariant \<open>play\<close> pushes the piece on its stack and
  leaves the other stacks alone.
\<close>

definition col_cells :: "grid \<Rightarrow> nat \<Rightarrow> string list" where
  "col_cells g c = map (\<lambda>r. g ! r ! c) (rev [0..<ROWS])"

lemma length_col_cells [simp]: "length (col_cells g c) = ROWS"
  by (simp add: col_cells_def)

lemma col_cells_nth: "i < ROWS \<Longrightarrow> col_cells g c ! i = g ! (ROWS - Suc i) ! c"
  by (simp add: col_cells_def rev_nth)

lemma col_cells_drop_piece:
  assumes "wf_grid g" and "row < ROWS" and "col < COLS"
  shows "col_cells (drop_piece g row col s) c =
           (if c = col then (col_cells g c)[ROWS - 1 - row := s] else col_cells g c)"
proof (rule nth_equalityI)
  have len: "row < length g" "col < length (g ! row)"
    using assms by (auto simp: wf_grid_def wf_grid_nth)
  show "length (col_cells (drop_piece g row col s) c) =
          length (if c = col then (col_cells g c)[ROWS - 1 - row := s] else col_cells g c)"
    by simp
  fix i
  assume "i < length (col_cells (drop_piece g row col s) c)"
  then have i: "i < ROWS" by simp
  have iff: "ROWS - Suc i = row \<longleftrightarrow> i = ROWS - 1 - row"
    using i assms(2) by arith
  have "col_cells (drop_piece g row col s) c ! i = (if ROWS - Suc i = row \<and> c = col then s else g ! (ROWS - Suc i) ! c)"
    using i len by (simp add: col_cells_nth)
  also have "\<dots> = (if c = col then (col_cells g c)[ROWS - 1 - row := s] else col_cells g c) ! i"
    using i by (simp only: iff) (simp add: col_cells_nth nth_list_update)
  finally show "col_cells (drop_piece g row col s) c ! i =
          (if c = col then (col_cells g c)[ROWS - 1 - row := s] else col_cells g c) ! i" .
qed

definition column :: "grid \<Rightarrow> nat \<Rightarrow> string list" where
  "column g c = takeWhile (\<lambda>s. s \<noteq> '' '') (col_cells g c)"

definition stacks :: "grid \<Rightarrow> string list list" where
  "stacks g = map (column g) [0..<COLS]"

text \<open>The history read column by column: for each column, the \<open>str\<close> of the pieces
  played into it, oldest first.\<close>

definition replay :: "(pyval \<times> int) list \<Rightarrow> string list list" where
  "replay h = map (\<lambda>c. map (py_str \<circ> fst) (filter (\<lambda>m. snd m = int c) h)) [0..<COLS]"

text \<open>The played column grows by the piece; every other column is unchanged.\<close>

lemma play_column:
  assumes wf: "wf_grid (grid b)" and grav: "gravity (grid b)"
    and ok: "play b col p = Inr b'" and vis: "py_str p \<noteq> '' ''"
  shows "column (grid b') (nat col) = column (grid b) (nat col) @ [py_str p]"
    and "c \<noteq> nat col \<Longrightarrow> column (grid b') c = column (grid b) c"
    and "nat col < COLS"
proof -
  let ?g = "grid b" and ?c = "nat col"
  from ok obtain row where cp: "can_play b col" and r: "get_next_open_row b ?c = Some row"
    and b': "grid b' = drop_piece ?g row ?c (py_str p)"
    by (rule play_InrE) simp
  note cell = play_row [OF cp r]
  define k where "k = length (takeWhile (\<lambda>s. s \<noteq> '' '') (col_cells ?g ?c))"
  have k_scan: "k = length (takeWhile (\<lambda>r. ?g ! r ! ?c \<noteq> '' '') (rev [0..<ROWS]))"
    by (simp add: k_def col_cells_def takeWhile_map comp_def)
  with r have k_row: "k \<noteq> ROWS" "row = ROWS - 1 - k"
    by (simp_all add: get_next_open_row_def find_open_row_takeWhile Let_def split: if_splits)
  have "k \<le> length (rev [0..<ROWS])"
    unfolding k_scan by (rule length_takeWhile_le)
  with k_row have k_lt: "k < ROWS" "ROWS - 1 - row = k"
    by simp_all
  have above: "col_cells ?g ?c ! Suc k = '' ''" if sk: "Suc k < ROWS"
  proof -
    from sk k_row have eq: "Suc (row - 1) = row" "ROWS - Suc (Suc k) = row - 1"
      by arith+
    from grav have "Suc (row - 1) < ROWS \<longrightarrow> ?c < COLS \<longrightarrow>
        ?g ! (row - 1) ! ?c \<noteq> '' '' \<longrightarrow> ?g ! Suc (row - 1) ! ?c \<noteq> '' ''"
      unfolding gravity_iff by blast
    with eq(1) cell(1,2,3) have "?g ! (row - 1) ! ?c = '' ''"
      by simp
    with sk eq(2) show ?thesis
      by (simp add: col_cells_nth)
  qed
  show "column (grid b') ?c = column ?g ?c @ [py_str p]"
    unfolding column_def b' col_cells_drop_piece [OF wf cell(1,2)] k_lt(2)
    using takeWhile_update_first [OF k_def] above k_lt(1) vis
    by simp
  show "c \<noteq> ?c \<Longrightarrow> column (grid b') c = column ?g c"
    by (simp add: column_def b' col_cells_drop_piece [OF wf cell(1,2)])
  show "?c < COLS" by (rule cell(2))
qed

lemma length_column: "length (column g c) \<le> ROWS"
  using length_takeWhile_le [of _ "col_cells g c"] by (simp add: column_def)

lemma nth_stacks: "c < COLS \<Longrightarrow> stacks g ! c = column g c"
  by (simp add: stacks_def)

lemma length_stacks [simp]: "length (stacks g) = COLS"
  by (simp add: stacks_def)

text \<open>Gravity propagates down a column: below a filled cell every cell is filled.\<close>

lemma gravity_below:
  assumes "gravity g" and "g ! r ! c \<noteq> '' ''" and "c < COLS"
  shows "r \<le> r' \<Longrightarrow> r' < ROWS \<Longrightarrow> g ! r' ! c \<noteq> '' ''"
proof (induction r')
  case 0
  then show ?case using assms(2) by simp
next
  case (Suc r')
  show ?case
  proof (cases "r = Suc r'")
    case True
    with assms(2) show ?thesis by simp
  next
    case False
    with Suc.prems have "r \<le> r'" "r' < ROWS" by simp_all
    with Suc.IH have "g ! r' ! c \<noteq> '' ''" by simp
    with assms(1,3) Suc.prems(2) show ?thesis by (simp add: gravity_iff)
  qed
qed

text \<open>A column is full exactly when its top cell is filled.\<close>

lemma column_full_iff:
  assumes "gravity g" and "c < COLS"
  shows "length (column g c) = ROWS \<longleftrightarrow> g ! 0 ! c \<noteq> '' ''"
proof -
  have "length (column g c) = ROWS \<longleftrightarrow> (\<forall>i < ROWS. col_cells g c ! i \<noteq> '' '')"
    unfolding column_def
    using length_takeWhile_eq_iff [of _ "col_cells g c"] by (simp add: all_set_conv_all_nth)
  also have "\<dots> \<longleftrightarrow> (\<forall>r < ROWS. g ! r ! c \<noteq> '' '')"
  proof
    assume h: "\<forall>i < ROWS. col_cells g c ! i \<noteq> '' ''"
    show "\<forall>r < ROWS. g ! r ! c \<noteq> '' ''"
    proof (intro allI impI)
      fix r assume "r < ROWS"
      with h [rule_format, of "ROWS - Suc r"] show "g ! r ! c \<noteq> '' ''"
        by (simp add: col_cells_nth Suc_diff_Suc)
    qed
  qed (simp add: col_cells_nth)
  also have "\<dots> \<longleftrightarrow> g ! 0 ! c \<noteq> '' ''"
    using gravity_below [OF assms(1) _ assms(2)] by (auto simp: ROWS_def)
  finally show ?thesis .
qed

text \<open>
  C13. Seen as seven bottom-up stacks, a successful play of a visible piece pushes
  str(piece) on the played column and leaves the other columns unchanged (functional
  refinement).
\<close>

theorem play_stacks:
  assumes wf: "wf_grid (grid b)" and grav: "gravity (grid b)"
    and ok: "play b col p = Inr b'" and vis: "py_str p \<noteq> '' ''"
  shows "stacks (grid b') = (stacks (grid b))[nat col := stacks (grid b) ! nat col @ [py_str p]]"
proof (rule nth_equalityI)
  note col = play_column [OF wf grav ok vis]
  show "length (stacks (grid b')) = length ((stacks (grid b))[nat col := stacks (grid b) ! nat col @ [py_str p]])"
    by simp
  fix i
  assume "i < length (stacks (grid b'))"
  then have i: "i < COLS" by simp
  show "stacks (grid b') ! i = (stacks (grid b))[nat col := stacks (grid b) ! nat col @ [py_str p]] ! i"
    using i col by (cases "i = nat col") (simp_all add: nth_stacks nth_list_update)
qed
text \<open>
  C16. On a board with the invariant, a column is playable exactly when it is in range
  and its stack holds fewer than \<open>ROWS\<close> pieces: \<open>can_play\<close>'s test of the top
  cell decides whether the column is full.
\<close>

theorem can_play_stacks:
  assumes "board_inv (grid b)"
  shows "can_play b col \<longleftrightarrow> 0 \<le> col \<and> col < int COLS \<and> length (stacks (grid b) ! nat col) < ROWS"
proof (cases "0 \<le> col \<and> col < int COLS")
  case True
  then have c: "nat col < COLS" by (simp add: nat_less_iff)
  have grav: "gravity (grid b)" using assms by (simp add: board_inv_def)
  have "length (stacks (grid b) ! nat col) < ROWS \<longleftrightarrow> grid b ! 0 ! nat col = '' ''"
    using column_full_iff [OF grav c] length_column [of "grid b" "nat col"]
    by (auto simp: nth_stacks [OF c])
  with True show ?thesis by (simp add: can_play_def)
next
  case False
  then show ?thesis by (auto simp: can_play_def)
qed

lemma replay_snoc:
  assumes "0 \<le> col" and "col < int COLS"
  shows "replay (h @ [(p, col)]) = (replay h)[nat col := replay h ! nat col @ [py_str p]]"
proof (rule nth_equalityI)
  show "length (replay (h @ [(p, col)])) = length ((replay h)[nat col := replay h ! nat col @ [py_str p]])"
    by (simp add: replay_def)
  fix i
  assume "i < length (replay (h @ [(p, col)]))"
  then have i: "i < COLS" by (simp add: replay_def)
  show "replay (h @ [(p, col)]) ! i = (replay h)[nat col := replay h ! nat col @ [py_str p]] ! i"
    using i assms by (cases "i = nat col") (auto simp: replay_def nth_list_update)
qed

text \<open>
  C19. The grid is the replay of the history: if every column's stack lists the pieces
  the history records for that column, in order, a successful play of a visible piece
  keeps it so (play updates grid and history together).
\<close>

theorem play_replay:
  assumes inv: "board_inv (grid b)" and rep: "stacks (grid b) = replay (history b)"
    and ok: "play b col p = Inr b'" and vis: "py_str p \<noteq> '' ''"
  shows "stacks (grid b') = replay (history b')"
proof (rule nth_equalityI)
  have wf: "wf_grid (grid b)" and grav: "gravity (grid b)"
    using inv by (simp_all add: board_inv_def)
  note col = play_column [OF wf grav ok vis]
  have h: "history b' = history b @ [(p, col)]"
    using ok by (auto elim: play_InrE)
  have range: "0 \<le> col" "col < int COLS"
    using ok by (auto elim!: play_InrE simp: can_play_def)
  show "length (stacks (grid b')) = length (replay (history b'))"
    by (simp add: replay_def)
  fix i
  assume "i < length (stacks (grid b'))"
  then have i: "i < COLS" by simp
  have old: "column (grid b) i = replay (history b) ! i"
    using rep i by (metis nth_stacks)
  show "stacks (grid b') ! i = replay (history b') ! i"
    unfolding h replay_snoc [OF range]
    using i col old by (cases "i = nat col") (simp_all add: nth_stacks nth_list_update replay_def)
qed

section \<open>Rendering\<close>

lemma py_join_Cons_Cons: "xs \<noteq> [] \<Longrightarrow> py_join sep (x # xs) = x @ sep @ py_join sep xs"
  by (cases xs) (simp_all add: py_join_def)

lemma length_py_join:
  "\<forall>x \<in> set xs. length x = n \<Longrightarrow> xs \<noteq> [] \<Longrightarrow> length (py_join [d] xs) = Suc n * length xs - 1"
proof (induction xs)
  case Nil
  then show ?case by simp
next
  case (Cons x xs)
  show ?case
  proof (cases "xs = []")
    case True
    with Cons.prems show ?thesis by (simp add: py_join_def)
  next
    case False
    then have "0 < length xs" by simp
    with False Cons show ?thesis by (simp add: py_join_Cons_Cons)
  qed
qed

lemma py_join_nth:
  "\<forall>x \<in> set xs. length x = n \<Longrightarrow> i < length xs \<Longrightarrow> j < n \<Longrightarrow>
     py_join [d] xs ! (Suc n * i + j) = xs ! i ! j"
proof (induction xs arbitrary: i)
  case Nil
  then show ?case by simp
next
  case (Cons x xs)
  from Cons.prems(1) have lx: "length x = n" and all: "\<forall>x \<in> set xs. length x = n"
    by simp_all
  show ?case
  proof (cases i)
    case 0
    have "py_join [d] (x # xs) = x @ (if xs = [] then [] else d # py_join [d] xs)"
      by (cases xs) (simp_all add: py_join_def)
    then have "py_join [d] (x # xs) ! j = x ! j"
      using lx Cons.prems(3) by (simp add: nth_append_left)
    with 0 show ?thesis by simp
  next
    case (Suc i')
    from Cons.prems(2) Suc have i': "i' < length xs" by simp
    then have ne: "xs \<noteq> []" by (cases xs) simp_all
    have idx: "Suc n * i + j = length x + Suc (Suc n * i' + j)"
      using Suc lx by simp
    have "py_join [d] (x # xs) ! (Suc n * i + j) = (x @ [d] @ py_join [d] xs) ! (length x + Suc (Suc n * i' + j))"
      by (simp only: idx py_join_Cons_Cons [OF ne])
    also have "\<dots> = py_join [d] xs ! (Suc n * i' + j)"
      by (simp only: nth_append_length_plus append_Cons append_Nil nth_Cons_Suc)
    also have "\<dots> = xs ! i' ! j"
      by (rule Cons.IH [OF all i' Cons.prems(3)])
    also have "\<dots> = (x # xs) ! i ! j"
      using Suc by simp
    finally show ?thesis .
  qed
qed

text \<open>One rendered row: \<open>'|'\<close>, the cells joined by \<open>'|'\<close>, \<open>'|'\<close>.\<close>

lemma row_string:
  assumes "length row = COLS" and "list_all (\<lambda>s. length s = 1) row"
  shows "length (''|'' @ py_join ''|'' row @ ''|'') = 15"
    and "c < COLS \<Longrightarrow> (''|'' @ py_join ''|'' row @ ''|'') ! (2 * c + 1) = row ! c ! 0"
proof -
  have one: "\<forall>x \<in> set row. length x = 1" and ne: "row \<noteq> []"
    using assms by (auto simp: list_all_iff COLS_def)
  show "length (''|'' @ py_join ''|'' row @ ''|'') = 15"
    using length_py_join [OF one ne, of "CHR ''|''"] assms(1) by (simp add: COLS_def)
  assume c: "c < COLS"
  have "py_join ''|'' row ! (Suc 1 * c + 0) = row ! c ! 0"
    using py_join_nth [OF one, of c 0] c assms(1) by simp
  moreover have "c < COLS \<Longrightarrow> 2 * c < length (py_join ''|'' row)"
    using length_py_join [OF one ne, of "CHR ''|''"] assms(1) by (simp add: COLS_def)
  ultimately show "(''|'' @ py_join ''|'' row @ ''|'') ! (2 * c + 1) = row ! c ! 0"
    using c by (simp add: nth_append mult_2)
qed

text \<open>
  C20. print_board draws every cell where a reader of the text finds it: on a
  well-shaped grid of one-character cells, cell \<open>(r, c)\<close> is character
  \<open>16 r + 2 c + 1\<close> of the output (rows of 15 characters and a newline).
\<close>

theorem print_board_cell:
  assumes wf: "wf_grid (grid b)" and one: "list_all (list_all (\<lambda>s. length s = 1)) (grid b)"
    and r: "r < ROWS" and c: "c < COLS"
  shows "print_board b ! (16 * r + 2 * c + 1) = grid b ! r ! c ! 0"
proof -
  let ?rows = "map (\<lambda>row. ''|'' @ py_join ''|'' row @ ''|'') (grid b)"
  have rows: "length (grid b) = ROWS" "\<forall>row \<in> set (grid b). length row = COLS"
    using wf by (simp_all add: wf_grid_def list_all_iff)
  have cells: "\<forall>row \<in> set (grid b). list_all (\<lambda>s. length s = 1) row"
    using one by (simp add: list_all_iff)
  have len15: "\<forall>x \<in> set ?rows. length x = 15"
    using rows(2) cells row_string(1) by auto
  have ne: "?rows \<noteq> []" using rows(1) by (auto simp: ROWS_def)
  have "py_join ''\<newline>'' ?rows ! (Suc 15 * r + (2 * c + 1)) = ?rows ! r ! (2 * c + 1)"
    using py_join_nth [OF len15, of r "2 * c + 1"] r c rows(1) by (simp add: COLS_def)
  also have "\<dots> = grid b ! r ! c ! 0"
  proof -
    have "grid b ! r \<in> set (grid b)" using r rows(1) by simp
    then have "length (grid b ! r) = COLS" "list_all (\<lambda>s. length s = 1) (grid b ! r)"
      using rows(2) cells by blast+
    from row_string(2) [OF this c] r rows(1) show ?thesis by simp
  qed
  finally have cell: "py_join ''\<newline>'' ?rows ! (16 * r + 2 * c + 1) = grid b ! r ! c ! 0"
    by (simp add: add.assoc)
  have "16 * r + 2 * c + 1 < length (py_join ''\<newline>'' ?rows)"
    using length_py_join [OF len15 ne, of "CHR ''\<newline>''"] r c rows(1) by (simp add: ROWS_def COLS_def)
  then have "print_board b ! (16 * r + 2 * c + 1) = py_join ''\<newline>'' ?rows ! (16 * r + 2 * c + 1)"
    unfolding print_board_def Let_def by (rule nth_append_left)
  from this cell show ?thesis by (rule trans)
qed

end
