(* ===== verification/Win.thy ===== *)
theory Win
  imports Board
begin

text \<open>
  The win detector, \<open>Board.is_winning\<close> of \<open>src/src/main.py\<close> (lines 36--60): four
  scans (rows, columns, rising and falling diagonals) for four equal cells. The theory
  proves it equal to the abstract statement "some run of four cells in one of the eight
  directions holds the piece".
\<close>

section \<open>The detector\<close>

definition is_winning :: "board \<Rightarrow> string \<Rightarrow> bool" where
  "is_winning b piece =
     (let g = grid b in
      list_ex (\<lambda>r. list_ex (\<lambda>c. list_all (\<lambda>i. g ! r ! (c + i) = piece) [0..<4])
        [0..<COLS - 3]) [0..<ROWS] \<or>
      list_ex (\<lambda>c. list_ex (\<lambda>r. list_all (\<lambda>i. g ! (r + i) ! c = piece) [0..<4])
        [0..<ROWS - 3]) [0..<COLS] \<or>
      list_ex (\<lambda>r. list_ex (\<lambda>c. list_all (\<lambda>i. g ! (r + i) ! (c + i) = piece) [0..<4])
        [0..<COLS - 3]) [0..<ROWS - 3] \<or>
      list_ex (\<lambda>r. list_ex (\<lambda>c. list_all (\<lambda>i. g ! (r - i) ! (c + i) = piece) [0..<4])
        [0..<COLS - 3]) [3..<ROWS])"

section \<open>Specification: a run of four\<close>

text \<open>
  \<open>at g r c p\<close>: the integer position \<open>(r, c)\<close> is on the board and holds \<open>p\<close>.
  A run starts at \<open>(r, c)\<close> and takes four steps of \<open>(dr, dc)\<close>, a unit step in
  one of the eight directions.
\<close>

definition at :: "grid \<Rightarrow> int \<Rightarrow> int \<Rightarrow> string \<Rightarrow> bool" where
  "at g r c p \<longleftrightarrow>
     0 \<le> r \<and> r < int ROWS \<and> 0 \<le> c \<and> c < int COLS \<and> g ! nat r ! nat c = p"

definition four_in_a_row :: "grid \<Rightarrow> string \<Rightarrow> int \<Rightarrow> int \<Rightarrow> int \<Rightarrow> int \<Rightarrow> bool" where
  "four_in_a_row g p r c dr dc \<longleftrightarrow>
     (dr, dc) \<noteq> (0, 0) \<and> \<bar>dr\<bar> \<le> 1 \<and> \<bar>dc\<bar> \<le> 1 \<and>
     list_all (\<lambda>i. at g (r + int i * dr) (c + int i * dc) p) [0..<4]"

definition has_four :: "grid \<Rightarrow> string \<Rightarrow> bool" where
  "has_four g p \<longleftrightarrow> (\<exists>r c dr dc. four_in_a_row g p r c dr dc)"

lemma four_in_a_row_unfold:
  "four_in_a_row g p r c dr dc \<longleftrightarrow>
     (dr, dc) \<noteq> (0, 0) \<and> \<bar>dr\<bar> \<le> 1 \<and> \<bar>dc\<bar> \<le> 1 \<and>
     at g r c p \<and> at g (r + dr) (c + dc) p \<and> at g (r + 2 * dr) (c + 2 * dc) p \<and>
     at g (r + 3 * dr) (c + 3 * dc) p"
  by (simp add: four_in_a_row_def upt_rec)

lemma at_nat: "at g (int r) (int c) p \<longleftrightarrow> r < ROWS \<and> c < COLS \<and> g ! r ! c = p"
  by (auto simp: at_def)

text \<open>A run read backwards is a run.\<close>

lemma four_in_a_row_rev:
  "four_in_a_row g p r c dr dc \<Longrightarrow> four_in_a_row g p (r + 3 * dr) (c + 3 * dc) (- dr) (- dc)"
  by (auto simp: four_in_a_row_unfold algebra_simps)

section \<open>The detector meets its specification\<close>

lemma is_winning_cases:
  "is_winning b p \<longleftrightarrow>
     (\<exists>r c. r < ROWS \<and> c + 3 < COLS \<and> list_all (\<lambda>i. grid b ! r ! (c + i) = p) [0..<4]) \<or>
     (\<exists>r c. r + 3 < ROWS \<and> c < COLS \<and> list_all (\<lambda>i. grid b ! (r + i) ! c = p) [0..<4]) \<or>
     (\<exists>r c. r + 3 < ROWS \<and> c + 3 < COLS \<and> list_all (\<lambda>i. grid b ! (r + i) ! (c + i) = p) [0..<4]) \<or>
     (\<exists>r c. 3 \<le> r \<and> r < ROWS \<and> c + 3 < COLS \<and> list_all (\<lambda>i. grid b ! (r - i) ! (c + i) = p) [0..<4])"
  unfolding is_winning_def Let_def list_ex_upt
  by (simp add: less_diff_conv) blast

lemma has_four_if_winning: "is_winning b p \<Longrightarrow> has_four (grid b) p"
  unfolding is_winning_cases has_four_def
proof (elim disjE exE conjE)
  fix r c assume "r < ROWS" "c + 3 < COLS" "list_all (\<lambda>i. grid b ! r ! (c + i) = p) [0..<4]"
  then have "four_in_a_row (grid b) p (int r) (int c) 0 1"
    by (simp add: four_in_a_row_unfold at_def upt_4 board_dims)
  then show "\<exists>r c dr dc. four_in_a_row (grid b) p r c dr dc" by blast
next
  fix r c assume "r + 3 < ROWS" "c < COLS" "list_all (\<lambda>i. grid b ! (r + i) ! c = p) [0..<4]"
  then have "four_in_a_row (grid b) p (int r) (int c) 1 0"
    by (simp add: four_in_a_row_unfold at_def upt_4 board_dims)
  then show "\<exists>r c dr dc. four_in_a_row (grid b) p r c dr dc" by blast
next
  fix r c assume "r + 3 < ROWS" "c + 3 < COLS" "list_all (\<lambda>i. grid b ! (r + i) ! (c + i) = p) [0..<4]"
  then have "four_in_a_row (grid b) p (int r) (int c) 1 1"
    by (simp add: four_in_a_row_unfold at_def upt_4 board_dims)
  then show "\<exists>r c dr dc. four_in_a_row (grid b) p r c dr dc" by blast
next
  fix r c assume "3 \<le> r" "r < ROWS" "c + 3 < COLS" "list_all (\<lambda>i. grid b ! (r - i) ! (c + i) = p) [0..<4]"
  then have "four_in_a_row (grid b) p (int r) (int c) (- 1) 1"
    by (simp add: four_in_a_row_unfold at_def upt_4 board_dims nat_diff_distrib)
  then show "\<exists>r c dr dc. four_in_a_row (grid b) p r c dr dc" by blast
qed

text \<open>Every run can be read in one of the four directions the detector scans.\<close>

lemma four_in_a_row_scan_dir:
  assumes "four_in_a_row g p r c dr dc"
  obtains r' c' dr' dc' where "four_in_a_row g p r' c' dr' dc'"
    and "(dr', dc') \<in> {(0, 1), (1, 0), (1, 1), (-1, 1)}"
proof -
  from assms have d: "(dr, dc) \<noteq> (0, 0)" "\<bar>dr\<bar> \<le> 1" "\<bar>dc\<bar> \<le> 1"
    by (simp_all add: four_in_a_row_def)
  show ?thesis
  proof (cases "(dr, dc) \<in> {(0, 1), (1, 0), (1, 1), (-1, 1)}")
    case True
    with assms that show ?thesis by blast
  next
    case False
    from d(2,3) have "dr = -1 \<or> dr = 0 \<or> dr = 1" "dc = -1 \<or> dc = 0 \<or> dc = 1"
      by arith+
    with d(1) False have "(- dr, - dc) \<in> {(0, 1), (1, 0), (1, 1), (-1, 1)}"
      by (elim disjE) simp_all
    with four_in_a_row_rev [OF assms] that show ?thesis by blast
  qed
qed

lemma at_start:
  assumes "at g r c p"
  obtains r0 c0 where "r = int r0" "c = int c0"
  using assms by (metis at_def nonneg_int_cases)

lemma winning_if_has_four: "has_four (grid b) p \<Longrightarrow> is_winning b p"
proof -
  assume "has_four (grid b) p"
  then obtain r c dr dc where run0: "four_in_a_row (grid b) p r c dr dc"
    by (auto simp: has_four_def)
  then obtain r' c' dr' dc' where run: "four_in_a_row (grid b) p r' c' dr' dc'"
    and dir: "(dr', dc') \<in> {(0, 1), (1, 0), (1, 1), (-1, 1)}"
    by (rule four_in_a_row_scan_dir)
  from run have "at (grid b) r' c' p" by (simp add: four_in_a_row_unfold)
  then obtain r0 c0 where rc: "r' = int r0" "c' = int c0" by (rule at_start)
  have cell: "at (grid b) (int r0 + int i * dr') (int c0 + int i * dc') p" if "i < 4" for i
    using run rc that by (auto simp: four_in_a_row_def list_all_iff)
  have run4: "list_all P [0..<4]" if "\<And>i. i < 4 \<Longrightarrow> P i" for P :: "nat \<Rightarrow> bool"
    using that by (simp add: list_all_iff)
  from dir show ?thesis
  proof (elim insertE emptyE)
    assume d: "(dr', dc') = (0, 1)"
    have h: "r0 < ROWS \<and> c0 + i < COLS \<and> grid b ! r0 ! (c0 + i) = p" if "i < 4" for i
      using cell [OF that] d at_nat [of "grid b" r0 "c0 + i" p] by simp
    have "r0 < ROWS" using h [of 0] by simp
    moreover have "c0 + 3 < COLS" using h [of 3] by simp
    moreover have "list_all (\<lambda>i. grid b ! r0 ! (c0 + i) = p) [0..<4]"
      by (rule run4) (use h in simp)
    ultimately show ?thesis unfolding is_winning_cases by blast
  next
    assume d: "(dr', dc') = (1, 0)"
    have h: "r0 + i < ROWS \<and> c0 < COLS \<and> grid b ! (r0 + i) ! c0 = p" if "i < 4" for i
      using cell [OF that] d at_nat [of "grid b" "r0 + i" c0 p] by simp
    have "r0 + 3 < ROWS" using h [of 3] by simp
    moreover have "c0 < COLS" using h [of 0] by simp
    moreover have "list_all (\<lambda>i. grid b ! (r0 + i) ! c0 = p) [0..<4]"
      by (rule run4) (use h in simp)
    ultimately show ?thesis unfolding is_winning_cases by blast
  next
    assume d: "(dr', dc') = (1, 1)"
    have h: "r0 + i < ROWS \<and> c0 + i < COLS \<and> grid b ! (r0 + i) ! (c0 + i) = p"
      if "i < 4" for i
      using cell [OF that] d at_nat [of "grid b" "r0 + i" "c0 + i" p] by simp
    have "r0 + 3 < ROWS" "c0 + 3 < COLS" using h [of 3] by simp_all
    moreover have "list_all (\<lambda>i. grid b ! (r0 + i) ! (c0 + i) = p) [0..<4]"
      by (rule run4) (use h in simp)
    ultimately show ?thesis unfolding is_winning_cases by blast
  next
    assume d: "(dr', dc') = (-1, 1)"
    have h: "i \<le> r0 \<and> r0 - i < ROWS \<and> c0 + i < COLS \<and> grid b ! (r0 - i) ! (c0 + i) = p"
      if "i < 4" for i
    proof -
      from cell [OF that] d have c: "at (grid b) (int r0 - int i) (int c0 + int i) p"
        by simp
      then have "i \<le> r0" by (simp add: at_def)
      with c at_nat [of "grid b" "r0 - i" "c0 + i" p] show ?thesis
        by (simp add: of_nat_diff)
    qed
    have "3 \<le> r0" "c0 + 3 < COLS" using h [of 3] by simp_all
    moreover have "r0 < ROWS" using h [of 0] by simp
    moreover have "list_all (\<lambda>i. grid b ! (r0 - i) ! (c0 + i) = p) [0..<4]"
      by (rule run4) (use h in simp)
    ultimately show ?thesis unfolding is_winning_cases by blast
  qed
qed

text \<open>
  C10. is_winning holds exactly when some run of four cells, starting anywhere and
  stepping in any of the eight directions, lies on the board and holds the piece.
\<close>

theorem is_winning_spec: "is_winning b p \<longleftrightarrow> has_four (grid b) p"
  using has_four_if_winning winning_if_has_four by blast
end
