(* ===== verification/Eval.thy ===== *)
theory Eval
  imports Win
begin

text \<open>
  The horizon heuristic, \<open>eval_board\<close> of \<open>src/src/main.py\<close> (lines 125--141), and
  the opponent expression \<open>'1' if piece == '0' else '0'\<close> that it shares with
  \<open>minimax\<close>. The score is three points per own piece in the centre column, overridden
  by \<open>1000000\<close> for a win and \<open>-1000000\<close> for a loss.
\<close>

section \<open>Definitions\<close>

text \<open>
  Python compares the piece with the string \<open>'0'\<close>: an int piece never equals it, so
  for the int \<open>0\<close> the "opponent" is \<open>'0'\<close> again.
\<close>

definition opponent_of :: "pyval \<Rightarrow> string" where
  "opponent_of piece = (if piece = PyStr ''0'' then ''1'' else ''0'')"

definition eval_board :: "board \<Rightarrow> pyval \<Rightarrow> int" where
  "eval_board b piece =
     (let score = (0 :: int);
          opponent_piece = opponent_of piece;
          center_array = map (\<lambda>row. row ! (COLS div 2)) (grid b);
          center_count = count_list center_array (py_str piece);
          score = score + int center_count * 3
      in if is_winning b (py_str piece) then 1000000
         else if is_winning b opponent_piece then -1000000
         else score)"

section \<open>Properties\<close>

lemma opponent_of_cases:
  "opponent_of (PyStr ''0'') = ''1''" "opponent_of (PyStr ''1'') = ''0''"
  "opponent_of (PyInt i) = ''0''"
  by (simp_all add: opponent_of_def)

lemma eval_board_center:
  "\<not> is_winning b (py_str p) \<Longrightarrow> \<not> is_winning b (opponent_of p) \<Longrightarrow>
     eval_board b p = 3 * int (count_list (map (\<lambda>row. row ! (COLS div 2)) (grid b)) (py_str p))"
  by (simp add: eval_board_def Let_def)

text \<open>Off a win of the mover, the heuristic never exceeds 18 (six centre cells).\<close>

lemma eval_board_le:
  assumes "wf_grid (grid b)" and "\<not> is_winning b (py_str p)"
  shows "eval_board b p \<le> 18"
proof -
  let ?n = "count_list (map (\<lambda>row. row ! (COLS div 2)) (grid b)) (py_str p)"
  have "?n \<le> length (map (\<lambda>row. row ! (COLS div 2)) (grid b))" by (rule count_le_length)
  with assms(1) have "?n \<le> 6" by (simp add: wf_grid_def ROWS_def)
  with assms(2) show ?thesis by (simp add: eval_board_def Let_def)
qed

lemma centre_drop_piece:
  assumes "wf_grid g" and "row < ROWS" and "c < COLS"
  shows "map (\<lambda>r. r ! k) (drop_piece g row c s) =
           (map (\<lambda>r. r ! k) g)[row := (if c = k then s else g ! row ! k)]"
proof (rule nth_equalityI)
  have len: "row < length g" "c < length (g ! row)"
    using assms by (auto simp: wf_grid_def wf_grid_nth)
  show "length (map (\<lambda>r. r ! k) (drop_piece g row c s)) =
          length ((map (\<lambda>r. r ! k) g)[row := (if c = k then s else g ! row ! k)])"
    by simp
  fix i
  assume "i < length (map (\<lambda>r. r ! k) (drop_piece g row c s))"
  then have i: "i < length g" by simp
  have "drop_piece g row c s ! i ! k = (if i = row \<and> k = c then s else g ! i ! k)"
    using len by simp
  with i len show "map (\<lambda>r. r ! k) (drop_piece g row c s) ! i =
          (map (\<lambda>r. r ! k) g)[row := (if c = k then s else g ! row ! k)] ! i"
    by (auto simp: nth_list_update)
qed

text \<open>
  C15. The heuristic counts the mover's centre pieces: while the game stays undecided,
  a play of a visible piece into the centre column (index \<open>COLS // 2\<close>) raises
  eval_board by exactly 3, and a play into any other column leaves it unchanged.
\<close>

theorem eval_board_play_step:
  assumes wf: "wf_grid (grid b)" and ok: "play b col p = Inr b'" and vis: "py_str p \<noteq> '' ''"
    and before: "\<not> is_winning b (py_str p)" "\<not> is_winning b (opponent_of p)"
    and after: "\<not> is_winning b' (py_str p)" "\<not> is_winning b' (opponent_of p)"
  shows "eval_board b' p = eval_board b p + (if col = int (COLS div 2) then 3 else 0)"
proof -
  let ?k = "COLS div 2" and ?s = "py_str p"
  from ok obtain row where cp: "can_play b col" and r: "get_next_open_row b (nat col) = Some row"
    and g': "grid b' = drop_piece (grid b) row (nat col) ?s"
    by (rule play_InrE) simp
  note cell = play_row [OF cp r]
  have len: "row < length (map (\<lambda>r. r ! ?k) (grid b))"
    using wf cell(1) by (simp add: wf_grid_def)
  have centre: "map (\<lambda>r. r ! ?k) (grid b') =
      (map (\<lambda>r. r ! ?k) (grid b))[row := (if nat col = ?k then ?s else grid b ! row ! ?k)]"
    unfolding g' by (rule centre_drop_piece [OF wf cell(1,2)])
  have col: "col = int ?k \<longleftrightarrow> nat col = ?k"
    using cp by (auto simp: can_play_def)
  show ?thesis
  proof (cases "nat col = ?k")
    case True
    have "map (\<lambda>r. r ! ?k) (grid b) ! row \<noteq> ?s"
      using cell(3) True vis len by simp
    then have "count_list (map (\<lambda>r. r ! ?k) (grid b')) ?s =
        Suc (count_list (map (\<lambda>r. r ! ?k) (grid b)) ?s)"
      unfolding centre using True count_list_update_fresh [OF len] by simp
    with True col show ?thesis
      by (simp add: eval_board_center [OF before] eval_board_center [OF after])
  next
    case False
    then have "map (\<lambda>r. r ! ?k) (grid b') = map (\<lambda>r. r ! ?k) (grid b)"
      unfolding centre using len list_update_id [of "map (\<lambda>r. r ! ?k) (grid b)" row] by simp
    with False col show ?thesis
      by (simp add: eval_board_center [OF before] eval_board_center [OF after])
  qed
qed

end
