(* ===== verification/Search.thy ===== *)
theory Search
  imports Eval
begin

text \<open>
  The search engine, \<open>minimax\<close> of \<open>src/src/main.py\<close> (lines 78--123): a
  depth-bounded minimax with fail-soft alpha-beta pruning over boards, each child a fresh
  copy of the board (\<open>copy.deepcopy\<close> is the functional \<open>play\<close>). The two
  \<open>for\<close> loops are \<open>max_loop\<close> and \<open>min_loop\<close>, parameterised by the
  recursive call; \<open>random.choice\<close> is an arbitrary choice function \<open>rnd\<close>. The
  reference \<open>mm_value\<close> is exhaustive minimax over the same children and leaf scores;
  the main theorems say the pruning search returns a score related to it by the fail-soft
  contract for every window, hence exactly the minimax value at the root.
\<close>

section \<open>The search\<close>

definition is_terminal_node :: "board \<Rightarrow> bool" where
  "is_terminal_node b \<longleftrightarrow>
     is_winning b ''0'' \<or> is_winning b ''1'' \<or> length (get_valid_locations b) = 0"

definition terminal_score :: "board \<Rightarrow> pyval \<Rightarrow> int" where
  "terminal_score b piece =
     (if is_winning b (py_str piece) then 1000000
      else if is_winning b (opponent_of piece) then -1000000
      else 0)"

definition py_choice :: "(int list \<Rightarrow> int) \<Rightarrow> int list \<Rightarrow> py_error + int" where
  "py_choice rnd xs = (if xs = [] then Inl IndexError else Inr (rnd xs))"

fun max_loop ::
  "(board \<Rightarrow> escore \<Rightarrow> escore \<Rightarrow> py_error + escore) \<Rightarrow> board \<Rightarrow> pyval \<Rightarrow>
   escore \<Rightarrow> escore \<Rightarrow> escore \<Rightarrow> int \<Rightarrow> int list \<Rightarrow> py_error + escore \<times> int" where
  "max_loop f b piece alpha beta value best_col [] = Inr (value, best_col)"
| "max_loop f b piece alpha beta value best_col (col # cols) =
     (case play b col piece of
        Inl e \<Rightarrow> Inl e
      | Inr temp_board \<Rightarrow>
          (case f temp_board alpha beta of
             Inl e \<Rightarrow> Inl e
           | Inr new_score \<Rightarrow>
               (let (value', best_col') =
                      (if new_score > value then (new_score, col) else (value, best_col));
                    alpha' = max alpha value'
                in if alpha' \<ge> beta then Inr (value', best_col')
                   else max_loop f b piece alpha' beta value' best_col' cols)))"

fun min_loop ::
  "(board \<Rightarrow> escore \<Rightarrow> escore \<Rightarrow> py_error + escore) \<Rightarrow> board \<Rightarrow> pyval \<Rightarrow>
   escore \<Rightarrow> escore \<Rightarrow> escore \<Rightarrow> int \<Rightarrow> int list \<Rightarrow> py_error + escore \<times> int" where
  "min_loop f b piece alpha beta value best_col [] = Inr (value, best_col)"
| "min_loop f b piece alpha beta value best_col (col # cols) =
     (case play b col (PyStr (opponent_of piece)) of
        Inl e \<Rightarrow> Inl e
      | Inr temp_board \<Rightarrow>
          (case f temp_board alpha beta of
             Inl e \<Rightarrow> Inl e
           | Inr new_score \<Rightarrow>
               (let (value', best_col') =
                      (if new_score < value then (new_score, col) else (value, best_col));
                    beta' = min beta value'
                in if alpha \<ge> beta' then Inr (value', best_col')
                   else min_loop f b piece alpha beta' value' best_col' cols)))"

fun minimax ::
  "(int list \<Rightarrow> int) \<Rightarrow> board \<Rightarrow> nat \<Rightarrow> escore \<Rightarrow> escore \<Rightarrow> bool \<Rightarrow> pyval \<Rightarrow>
   py_error + escore \<times> int option" where
  "minimax rnd b depth alpha beta maximizing_player piece =
     (if depth = 0 \<or> is_terminal_node b then
        (if is_terminal_node b then Inr (Fin (terminal_score b piece), None)
         else Inr (Fin (eval_board b piece), None))
      else if maximizing_player then
        (case py_choice rnd (get_valid_locations b) of
           Inl e \<Rightarrow> Inl e
         | Inr best_col \<Rightarrow>
             (case max_loop (\<lambda>tb a be. map_sum id fst (minimax rnd tb (depth - 1) a be False piece))
                     b piece alpha beta NegInf best_col (get_valid_locations b) of
                Inl e \<Rightarrow> Inl e
              | Inr (value, col) \<Rightarrow> Inr (value, Some col)))
      else
        (case py_choice rnd (get_valid_locations b) of
           Inl e \<Rightarrow> Inl e
         | Inr best_col \<Rightarrow>
             (case min_loop (\<lambda>tb a be. map_sum id fst (minimax rnd tb (depth - 1) a be True piece))
                     b piece alpha beta PosInf best_col (get_valid_locations b) of
                Inl e \<Rightarrow> Inl e
              | Inr (value, col) \<Rightarrow> Inr (value, Some col))))"

declare minimax.simps [simp del]


section \<open>Reference: exhaustive minimax\<close>

fun children :: "board \<Rightarrow> pyval \<Rightarrow> int list \<Rightarrow> board list" where
  "children b p [] = []"
| "children b p (col # cols) =
     (case play b col p of Inl _ \<Rightarrow> children b p cols | Inr b' \<Rightarrow> b' # children b p cols)"

fun maxs :: "escore list \<Rightarrow> escore" where
  "maxs [] = NegInf"
| "maxs (x # xs) = max x (maxs xs)"

fun mins :: "escore list \<Rightarrow> escore" where
  "mins [] = PosInf"
| "mins (x # xs) = min x (mins xs)"

fun mm_value :: "board \<Rightarrow> nat \<Rightarrow> bool \<Rightarrow> pyval \<Rightarrow> escore" where
  "mm_value b depth mx piece =
     (if depth = 0 \<or> is_terminal_node b then
        Fin (if is_terminal_node b then terminal_score b piece else eval_board b piece)
      else if mx then
        maxs (map (\<lambda>b'. mm_value b' (depth - 1) False piece)
               (children b piece (get_valid_locations b)))
      else
        mins (map (\<lambda>b'. mm_value b' (depth - 1) True piece)
               (children b (PyStr (opponent_of piece)) (get_valid_locations b))))"

declare mm_value.simps [simp del]

section \<open>The loops\<close>

lemma update_max:
  fixes s :: "'a::linorder"
  shows "(if s > m then s else m) = max m s"
  by (auto simp: max_def)

lemma update_min:
  fixes s :: "'a::linorder"
  shows "(if s < m then s else m) = min m s"
  by (auto simp: min_def)

lemma max_loop_step:
  assumes "play b col p = Inr tb" and "f tb alpha beta = Inr s"
  shows "max_loop f b p alpha beta m best (col # cols) =
           (if beta \<le> max alpha (max m s) then Inr (max m s, if s > m then col else best)
            else max_loop f b p (max alpha (max m s)) beta (max m s) (if s > m then col else best) cols)"
proof (cases "m < s")
  case True
  then have "max m s = s" by (rule max.absorb4)
  with True assms show ?thesis by (simp add: Let_def)
next
  case False
  then have "max m s = m" by (simp add: max.absorb1)
  with False assms show ?thesis by (simp add: Let_def)
qed

lemma min_loop_step:
  assumes "play b col (PyStr (opponent_of p)) = Inr tb" and "f tb alpha beta = Inr s"
  shows "min_loop f b p alpha beta m best (col # cols) =
           (if min beta (min m s) \<le> alpha then Inr (min m s, if s < m then col else best)
            else min_loop f b p alpha (min beta (min m s)) (min m s) (if s < m then col else best) cols)"
proof (cases "s < m")
  case True
  then have "min m s = s" by (rule min.absorb4)
  with True assms show ?thesis by (simp add: Let_def)
next
  case False
  then have "min m s = m" by (simp add: min.absorb1)
  with False assms show ?thesis by (simp add: Let_def)
qed

lemma max_loop_fishburn:
  assumes child: "\<And>tb a be. a < be \<Longrightarrow> \<exists>s. f tb a be = Inr s \<and> fishburn a be (V tb) s"
    and legal: "\<forall>col \<in> set cols. can_play b col"
    and "m \<le> alpha" and "alpha < beta"
  shows "\<exists>v c. max_loop f b p alpha beta m best cols = Inr (v, c) \<and> m \<le> v \<and>
           fishburn alpha beta (max m (maxs (map V (children b p cols)))) v"
  using legal assms(3,4)
proof (induction cols arbitrary: alpha m best)
  case Nil
  then show ?case by (simp add: fishburn_def)
next
  case (Cons col cols)
  from Cons.prems(1) obtain tb where tb: "play b col p = Inr tb"
    by (meson list.set_intros(1) play_Inr_iff)
  from child [OF Cons.prems(3)] obtain s where s: "f tb alpha beta = Inr s"
    and fs: "fishburn alpha beta (V tb) s" by blast
  show ?case
  proof (cases "beta \<le> max alpha (max m s)")
    case True
    with Cons.prems(2,3) fs have "fishburn alpha beta (max m (max (V tb) (maxs (map V (children b p cols))))) (max m s)"
      by (rule fishburn_break_max)
    with True tb show ?thesis
      unfolding max_loop_step [where f = f, OF tb s] by simp
  next
    case False
    then have lt: "max alpha (max m s) < beta" by (rule not_le_imp_less)
    from Cons.prems(1) have legal': "\<forall>c \<in> set cols. can_play b c" by simp
    have le: "max m s \<le> max alpha (max m s)" by simp
    from Cons.IH [OF legal' le lt, of "if s > m then col else best"]
    obtain v c where r: "max_loop f b p (max alpha (max m s)) beta (max m s)
        (if s > m then col else best) cols = Inr (v, c)"
      and v: "max m s \<le> v"
      and fv: "fishburn (max alpha (max m s)) beta (max (max m s) (maxs (map V (children b p cols)))) v"
      by blast
    from Cons.prems(2) fs lt v fv
    have "fishburn alpha beta (max m (max (V tb) (maxs (map V (children b p cols))))) v"
      by (rule fishburn_step_max)
    with False tb r v show ?thesis
      unfolding max_loop_step [where f = f, OF tb s] by auto
  qed
qed


lemma min_loop_fishburn:
  assumes child: "\<And>tb a be. a < be \<Longrightarrow> \<exists>s. f tb a be = Inr s \<and> fishburn a be (V tb) s"
    and legal: "\<forall>col \<in> set cols. can_play b col"
    and "beta \<le> m" and "alpha < beta"
  shows "\<exists>v c. min_loop f b p alpha beta m best cols = Inr (v, c) \<and> v \<le> m \<and>
           fishburn alpha beta (min m (mins (map V (children b (PyStr (opponent_of p)) cols)))) v"
  using legal assms(3,4)
proof (induction cols arbitrary: beta m best)
  case Nil
  then show ?case by (simp add: fishburn_def)
next
  case (Cons col cols)
  let ?q = "PyStr (opponent_of p)"
  from Cons.prems(1) obtain tb where tb: "play b col ?q = Inr tb"
    by (meson list.set_intros(1) play_Inr_iff)
  from child [OF Cons.prems(3)] obtain s where s: "f tb alpha beta = Inr s"
    and fs: "fishburn alpha beta (V tb) s" by blast
  show ?case
  proof (cases "min beta (min m s) \<le> alpha")
    case True
    with Cons.prems(2,3) fs have "fishburn alpha beta (min m (min (V tb) (mins (map V (children b ?q cols))))) (min m s)"
      by (rule fishburn_break_min)
    with True tb show ?thesis
      unfolding min_loop_step [where f = f, OF tb s] by simp
  next
    case False
    then have lt: "alpha < min beta (min m s)" by (rule not_le_imp_less)
    from Cons.prems(1) have legal': "\<forall>c \<in> set cols. can_play b c" by simp
    have le: "min beta (min m s) \<le> min m s" by (rule min.cobounded2)
    from Cons.IH [OF legal' le lt, of "if s < m then col else best"]
    obtain v c where r: "min_loop f b p alpha (min beta (min m s)) (min m s)
        (if s < m then col else best) cols = Inr (v, c)"
      and v: "v \<le> min m s"
      and fv: "fishburn alpha (min beta (min m s)) (min (min m s) (mins (map V (children b ?q cols)))) v"
      by blast
    from Cons.prems(2) fs lt v fv
    have "fishburn alpha beta (min m (min (V tb) (mins (map V (children b ?q cols))))) v"
      by (rule fishburn_step_min)
    with False tb r v show ?thesis
      unfolding min_loop_step [where f = f, OF tb s] by auto
  qed
qed

section \<open>Alpha-beta computes the minimax value\<close>

lemma not_terminal_legal:
  "\<not> is_terminal_node b \<Longrightarrow> get_valid_locations b \<noteq> []"
  by (simp add: is_terminal_node_def)

lemma valid_legal: "\<forall>col \<in> set (get_valid_locations b). can_play b col"
  by (simp add: get_valid_locations_iff)

lemma minimax_fishburn:
  "alpha < beta \<Longrightarrow>
     \<exists>v c. minimax rnd b depth alpha beta mx p = Inr (v, c) \<and>
           fishburn alpha beta (mm_value b depth mx p) v"
proof (induction depth arbitrary: b alpha beta mx)
  case 0
  then show ?case by (simp add: minimax.simps mm_value.simps fishburn_refl)
next
  case (Suc d)
  show ?case
  proof (cases "is_terminal_node b")
    case True
    then show ?thesis
      by (simp add: minimax.simps [of rnd b "Suc d"] mm_value.simps [of b "Suc d"] fishburn_refl)
  next
    case False
    have child: "\<exists>s. map_sum id fst (minimax rnd tb d a be mx' p) = Inr s \<and>
                   fishburn a be (mm_value tb d mx' p) s" if "a < be" for tb a be mx'
    proof -
      from Suc.IH [where b = tb and mx = mx', OF that]
      obtain v c where "minimax rnd tb d a be mx' p = Inr (v, c)"
        and "fishburn a be (mm_value tb d mx' p) v"
        by blast
      then show ?thesis by simp
    qed
    show ?thesis
    proof (cases mx)
      case True
      have "\<exists>v c. max_loop (\<lambda>tb a be. map_sum id fst (minimax rnd tb d a be False p)) b p
          alpha beta NegInf (rnd (get_valid_locations b)) (get_valid_locations b) = Inr (v, c) \<and>
          NegInf \<le> v \<and> fishburn alpha beta (max NegInf (maxs (map (\<lambda>tb. mm_value tb d False p)
               (children b p (get_valid_locations b))))) v"
        by (rule max_loop_fishburn [OF child valid_legal NegInf_least Suc.prems])
      then obtain v c where "max_loop (\<lambda>tb a be. map_sum id fst (minimax rnd tb d a be False p)) b p
          alpha beta NegInf (rnd (get_valid_locations b)) (get_valid_locations b) = Inr (v, c)"
        and "fishburn alpha beta (maxs (map (\<lambda>tb. mm_value tb d False p)
               (children b p (get_valid_locations b)))) v"
        by auto
      with False True not_terminal_legal [OF False] show ?thesis
        by (simp add: minimax.simps [of rnd b "Suc d"] mm_value.simps [of b "Suc d"] py_choice_def)
    next
      case False'': False
      have "\<exists>v c. min_loop (\<lambda>tb a be. map_sum id fst (minimax rnd tb d a be True p)) b p
          alpha beta PosInf (rnd (get_valid_locations b)) (get_valid_locations b) = Inr (v, c) \<and>
          v \<le> PosInf \<and> fishburn alpha beta (min PosInf (mins (map (\<lambda>tb. mm_value tb d True p)
               (children b (PyStr (opponent_of p)) (get_valid_locations b))))) v"
        by (rule min_loop_fishburn [OF child valid_legal PosInf_greatest Suc.prems])
      then obtain v c where "min_loop (\<lambda>tb a be. map_sum id fst (minimax rnd tb d a be True p)) b p
          alpha beta PosInf (rnd (get_valid_locations b)) (get_valid_locations b) = Inr (v, c)"
        and "fishburn alpha beta (mins (map (\<lambda>tb. mm_value tb d True p)
               (children b (PyStr (opponent_of p)) (get_valid_locations b)))) v"
        by auto
      with False False'' not_terminal_legal [OF False] show ?thesis
        by (simp add: minimax.simps [of rnd b "Suc d"] mm_value.simps [of b "Suc d"] py_choice_def)
    qed
  qed
qed

text \<open>
  C1. At the root window (-inf, inf) the pruning search returns exactly the exhaustive
  minimax value of the board, together with a column; pruning never changes the score.
\<close>

theorem minimax_root_value:
  "\<exists>c. minimax rnd b depth NegInf PosInf True p = Inr (mm_value b depth True p, c)"
proof -
  have "NegInf < PosInf" by simp
  from minimax_fishburn [OF this, of rnd b depth True p]
  obtain v c where "minimax rnd b depth NegInf PosInf True p = Inr (v, c)"
    and "fishburn NegInf PosInf (mm_value b depth True p) v"
    by blast
  then show ?thesis using fishburn_full_window by blast
qed

text \<open>
  C2. For every window alpha < beta the score of the pruning search and the exhaustive
  minimax value agree once both are clipped to the window (the fail-soft guarantee).
\<close>

theorem minimax_window:
  "alpha < beta \<Longrightarrow>
     \<exists>v c. minimax rnd b depth alpha beta mx p = Inr (v, c) \<and>
           max alpha (min v beta) = max alpha (min (mm_value b depth mx p) beta)"
  using minimax_fishburn [of alpha beta rnd b depth mx p] fishburn_clip by blast

section \<open>The search always returns an integer score\<close>

lemma max_loop_keeps:
  assumes child: "\<And>tb a be. \<exists>s. f tb a be = Inr s \<and> P s \<and> NegInf < s"
    and legal: "\<forall>col \<in> set cols. can_play b col"
    and start: "P m \<or> (m = NegInf \<and> cols \<noteq> [])"
  shows "\<exists>v c. max_loop f b p alpha beta m best cols = Inr (v, c) \<and> P v"
  using legal start
proof (induction cols arbitrary: alpha m best)
  case Nil
  then show ?case by simp
next
  case (Cons col cols)
  from Cons.prems(1) obtain tb where tb: "play b col p = Inr tb"
    by (meson list.set_intros(1) play_Inr_iff)
  from child obtain s where s: "f tb alpha beta = Inr s" and ps: "P s" "NegInf < s"
    by blast
  from Cons.prems(2) ps have pm: "P (max m s)"
    by (auto simp: max_def)
  from Cons.prems(1) have "\<forall>c \<in> set cols. can_play b c" by simp
  from Cons.IH [OF this] pm
  have "\<exists>v c. max_loop f b p (max alpha (max m s)) beta (max m s) (if s > m then col else best) cols
          = Inr (v, c) \<and> P v" by blast
  with pm show ?case
    unfolding max_loop_step [where f = f, OF tb s] by auto
qed

lemma min_loop_keeps:
  assumes child: "\<And>tb a be. \<exists>s. f tb a be = Inr s \<and> P s \<and> s < PosInf"
    and legal: "\<forall>col \<in> set cols. can_play b col"
    and start: "P m \<or> (m = PosInf \<and> cols \<noteq> [])"
  shows "\<exists>v c. min_loop f b p alpha beta m best cols = Inr (v, c) \<and> P v"
  using legal start
proof (induction cols arbitrary: beta m best)
  case Nil
  then show ?case by simp
next
  case (Cons col cols)
  from Cons.prems(1) obtain tb where tb: "play b col (PyStr (opponent_of p)) = Inr tb"
    by (meson list.set_intros(1) play_Inr_iff)
  from child obtain s where s: "f tb alpha beta = Inr s" and ps: "P s" "s < PosInf"
    by blast
  from Cons.prems(2) ps have pm: "P (min m s)"
    by (auto simp: min_def)
  from Cons.prems(1) have "\<forall>c \<in> set cols. can_play b c" by simp
  from Cons.IH [OF this] pm
  have "\<exists>v c. min_loop f b p alpha (min beta (min m s)) (min m s) (if s < m then col else best) cols
          = Inr (v, c) \<and> P v" by blast
  with pm show ?case
    unfolding min_loop_step [where f = f, OF tb s] by auto
qed

text \<open>Every score the search returns is an integer satisfying what all leaf scores satisfy.\<close>

lemma minimax_leaf_invariant:
  assumes leaf: "\<And>b. Q (terminal_score b p)" and horizon: "\<And>b. Q (eval_board b p)"
  shows "\<exists>v c. minimax rnd b depth alpha beta mx p = Inr (Fin v, c) \<and> Q v"
proof (induction depth arbitrary: b alpha beta mx)
  case 0
  then show ?case using leaf horizon by (simp add: minimax.simps)
next
  case (Suc d)
  show ?case
  proof (cases "is_terminal_node b")
    case True
    then show ?thesis using leaf by (simp add: minimax.simps [of rnd b "Suc d"])
  next
    case False
    let ?P = "\<lambda>s. \<exists>x. s = Fin x \<and> Q x"
    have child: "\<exists>s. map_sum id fst (minimax rnd tb d a be mx' p) = Inr s \<and> ?P s \<and>
                   NegInf < s \<and> s < PosInf" for tb a be mx'
    proof -
      from Suc.IH [where b = tb and mx = mx'] obtain v c
        where "minimax rnd tb d a be mx' p = Inr (Fin v, c)" and "Q v"
        by blast
      then show ?thesis by simp
    qed
    show ?thesis
    proof (cases mx)
      case True
      have "\<exists>v c. max_loop (\<lambda>tb a be. map_sum id fst (minimax rnd tb d a be False p)) b p
          alpha beta NegInf (rnd (get_valid_locations b)) (get_valid_locations b) = Inr (v, c) \<and> ?P v"
      proof (rule max_loop_keeps [OF _ valid_legal])
        show "\<exists>s. map_sum id fst (minimax rnd tb d a be False p) = Inr s \<and> ?P s \<and> NegInf < s"
          for tb a be using child [of tb a be False] by blast
      qed (simp add: not_terminal_legal [OF False])
      with False True not_terminal_legal [OF False] show ?thesis
        by (auto simp: minimax.simps [of rnd b "Suc d"] py_choice_def)
    next
      case False': False
      have "\<exists>v c. min_loop (\<lambda>tb a be. map_sum id fst (minimax rnd tb d a be True p)) b p
          alpha beta PosInf (rnd (get_valid_locations b)) (get_valid_locations b) = Inr (v, c) \<and> ?P v"
      proof (rule min_loop_keeps [OF _ valid_legal])
        show "\<exists>s. map_sum id fst (minimax rnd tb d a be True p) = Inr s \<and> ?P s \<and> s < PosInf"
          for tb a be using child [of tb a be True] by blast
      qed (simp add: not_terminal_legal [OF False])
      with False False' not_terminal_legal [OF False] show ?thesis
        by (auto simp: minimax.simps [of rnd b "Suc d"] py_choice_def)
    qed
  qed
qed

text \<open>
  C3. The search never raises (no ValueError from play, no IndexError from
  random.choice) and always returns an integer score, never an infinity.
\<close>

theorem minimax_total:
  "\<exists>v c. minimax rnd b depth alpha beta mx p = Inr (Fin v, c)"
  using minimax_leaf_invariant [where Q = "\<lambda>_. True"] by blast

text \<open>
  C8. For the int piece 0 that the driver passes, every score the search returns is a
  non-negative integer: the opponent of int 0 is computed as '0' again, so no loss is
  ever scored.
\<close>

theorem minimax_int0_never_loses:
  "\<exists>v c. minimax rnd b depth alpha beta mx (PyInt 0) = Inr (Fin v, c) \<and> 0 \<le> v"
  by (rule minimax_leaf_invariant)
    (simp_all add: terminal_score_def eval_board_def opponent_of_def Let_def)

text \<open>The first child always beats the initial \<open>-inf\<close>, so the initial column is overwritten.\<close>

lemma max_loop_initial_col:
  assumes child: "\<And>tb a be. \<exists>x. f tb a be = Inr (Fin x)"
  shows "max_loop f b p alpha beta NegInf c1 (col # cols) = max_loop f b p alpha beta NegInf c2 (col # cols)"
proof (cases "play b col p")
  case (Inl e)
  then show ?thesis by simp
next
  case (Inr tb)
  from child obtain x where "f tb alpha beta = Inr (Fin x)" by blast
  with Inr show ?thesis by (simp add: max_loop_step)
qed

lemma min_loop_initial_col:
  assumes child: "\<And>tb a be. \<exists>x. f tb a be = Inr (Fin x)"
  shows "min_loop f b p alpha beta PosInf c1 (col # cols) = min_loop f b p alpha beta PosInf c2 (col # cols)"
proof (cases "play b col (PyStr (opponent_of p))")
  case (Inl e)
  then show ?thesis by simp
next
  case (Inr tb)
  from child obtain x where "f tb alpha beta = Inr (Fin x)" by blast
  with Inr show ?thesis by (simp add: min_loop_step)
qed

lemma child_finite: "\<exists>x. map_sum id fst (minimax rnd tb d a be mx p) = Inr (Fin x)"
  using minimax_leaf_invariant [where Q = "\<lambda>_. True" and p = p and rnd = rnd and b = tb
      and depth = d and alpha = a and beta = be and mx = mx] by auto

text \<open>
  C4. The column drawn by random.choice before each loop never affects the result: any
  two choice functions give the same score and column.
\<close>

theorem minimax_random_irrelevant:
  "minimax rnd1 b depth alpha beta mx p = minimax rnd2 b depth alpha beta mx p"
proof (induction depth arbitrary: b alpha beta mx)
  case 0
  then show ?case by (simp add: minimax.simps)
next
  case (Suc d)
  have f: "(\<lambda>tb a be. map_sum id fst (minimax rnd1 tb d a be mx' p)) =
           (\<lambda>tb a be. map_sum id fst (minimax rnd2 tb d a be mx' p))" for mx'
    using Suc.IH by simp
  show ?case
  proof (cases "is_terminal_node b")
    case True
    then show ?thesis by (simp add: minimax.simps [of _ b "Suc d"])
  next
    case False
    then obtain col cols where cs: "get_valid_locations b = col # cols"
      by (meson neq_Nil_conv not_terminal_legal)
    have maxeq: "max_loop (\<lambda>tb a be. map_sum id fst (minimax rnd2 tb d a be False p)) b p
        alpha beta NegInf c1 (col # cols) =
      max_loop (\<lambda>tb a be. map_sum id fst (minimax rnd2 tb d a be False p)) b p
        alpha beta NegInf c2 (col # cols)" for c1 c2
      by (rule max_loop_initial_col) (rule child_finite)
    have mineq: "min_loop (\<lambda>tb a be. map_sum id fst (minimax rnd2 tb d a be True p)) b p
        alpha beta PosInf c1 (col # cols) =
      min_loop (\<lambda>tb a be. map_sum id fst (minimax rnd2 tb d a be True p)) b p
        alpha beta PosInf c2 (col # cols)" for c1 c2
      by (rule min_loop_initial_col) (rule child_finite)
    show ?thesis
      using maxeq [of "rnd1 (col # cols)" "rnd2 (col # cols)"]
        mineq [of "rnd1 (col # cols)" "rnd2 (col # cols)"]
      by (simp add: minimax.simps [of _ b "Suc d"] False cs f py_choice_def)
  qed
qed

section \<open>Scores of finished games\<close>

lemma opponent_of_mark: "opponent_of p \<in> {''0'', ''1''}"
  by (simp add: opponent_of_def)

text \<open>
  C5. On a board where the searching piece (a mark '0' or '1') has four in a row the
  search returns score 1000000 and no column, at every depth and window.
\<close>

theorem minimax_win:
  "py_str p \<in> {''0'', ''1''} \<Longrightarrow> is_winning b (py_str p) \<Longrightarrow>
     minimax rnd b depth alpha beta mx p = Inr (Fin 1000000, None)"
  by (auto simp: minimax.simps [of rnd b depth] is_terminal_node_def terminal_score_def)

text \<open>
  C6. On a board where the opponent has four in a row and the searching piece has not,
  the search returns score -1000000 and no column.
\<close>

theorem minimax_loss:
  "is_winning b (opponent_of p) \<Longrightarrow> \<not> is_winning b (py_str p) \<Longrightarrow>
     minimax rnd b depth alpha beta mx p = Inr (Fin (-1000000), None)"
  using opponent_of_mark [of p]
  by (auto simp: minimax.simps [of rnd b depth] is_terminal_node_def terminal_score_def)

text \<open>
  C7. On a full board where neither mark has four in a row the search returns score 0
  and no column.
\<close>

theorem minimax_draw:
  "py_str p \<in> {''0'', ''1''} \<Longrightarrow> get_valid_locations b = [] \<Longrightarrow>
     \<not> is_winning b ''0'' \<Longrightarrow> \<not> is_winning b ''1'' \<Longrightarrow>
     minimax rnd b depth alpha beta mx p = Inr (Fin 0, None)"
  using opponent_of_mark [of p]
  by (auto simp: minimax.simps [of rnd b depth] is_terminal_node_def terminal_score_def)

text \<open>
  C9. For the int piece 0, a finished board that '1' has won (and '0' has not) is
  scored 0, as a draw, not -1000000.
\<close>

theorem minimax_int0_loss_as_draw:
  "is_winning b ''1'' \<Longrightarrow> \<not> is_winning b ''0'' \<Longrightarrow>
     minimax rnd b depth alpha beta mx (PyInt 0) = Inr (Fin 0, None)"
  by (simp add: minimax.simps [of rnd b depth] is_terminal_node_def terminal_score_def opponent_of_def)
end
