(* ===== verification/Driver.thy ===== *)
theory Driver
  imports Search "HOL-Library.Sublist"
begin

text \<open>
  The command-line driver of \<open>src/src/main.py\<close> (\<open>main\<close>, \<open>start_new\<close>,
  \<open>change_turn\<close>, \<open>end_logic\<close>, lines 148--198): the Python string builtins it uses
  (\<open>strip\<close>, \<open>in\<close> as \<open>sublist\<close>, \<open>replace\<close>, \<open>int\<close>), the locals of one activation of
  \<open>main()\<close> as the record \<open>session\<close>, and the whole program as a stack of activations
  (\<open>RESET\<close> calls \<open>main()\<close> recursively) driven one input line at a time by
  \<open>main_step\<close>, with reachability as an inductive predicate. Lemmas: \<open>int(str(c)) = c\<close>,
  the search returns a playable column on a live board, every reachable state keeps the
  board invariant, and the behaviour of each kind of command line.
\<close>

section \<open>Python string builtins used by the driver\<close>

text \<open>\<open>str.isspace\<close> on the ASCII range: tab, newline, vertical tab, form feed,
  carriage return, the separators 28--31 and the space.\<close>

definition py_isspace :: "char \<Rightarrow> bool" where
  "py_isspace c \<longleftrightarrow> (of_char c :: nat) \<in> {9, 10, 11, 12, 13, 28, 29, 30, 31, 32}"

text \<open>\<open>s.strip()\<close>: whitespace removed at both ends.\<close>

definition py_strip :: "string \<Rightarrow> string" where
  "py_strip s = rev (dropWhile py_isspace (rev (dropWhile py_isspace s)))"

text \<open>\<open>s.replace(old, new)\<close>: every non-overlapping occurrence of \<open>old\<close>, scanned from the
  left, replaced by \<open>new\<close>; an empty \<open>old\<close> matches before every character and at the end.\<close>

function py_replace :: "string \<Rightarrow> string \<Rightarrow> string \<Rightarrow> string" where
  "py_replace old new s =
     (if old = [] then new @ concat (map (\<lambda>c. c # new) s)
      else if s = [] then []
      else if prefix old s then new @ py_replace old new (drop (length old) s)
      else hd s # py_replace old new (tl s))"
  by pat_completeness auto
termination
  by (relation "measure (\<lambda>(old, new, s). length s)") auto

declare py_replace.simps [simp del]

text \<open>\<open>int(s)\<close> for a string: surrounding whitespace ignored, an optional sign, then
  decimal digits in which single underscores may separate digits; anything else raises
  ValueError. (Python also accepts non-ASCII Unicode digits; commands are ASCII here.)\<close>

definition digit_val :: "char \<Rightarrow> nat option" where
  "digit_val c = (let n = of_char c in if 48 \<le> n \<and> n \<le> 57 then Some (n - 48) else None)"

fun digits_us :: "nat \<Rightarrow> string \<Rightarrow> nat option" where
  "digits_us acc [] = Some acc"
| "digits_us acc (c # cs) =
     (case digit_val c of
        Some d \<Rightarrow> digits_us (10 * acc + d) cs
      | None \<Rightarrow>
          (if c = CHR ''_'' then
             (case cs of
                [] \<Rightarrow> None
              | d # ds \<Rightarrow>
                  (case digit_val d of
                     None \<Rightarrow> None
                   | Some v \<Rightarrow> digits_us (10 * acc + v) ds))
           else None))"

definition parse_nat :: "string \<Rightarrow> nat option" where
  "parse_nat s =
     (case s of
        [] \<Rightarrow> None
      | c # cs \<Rightarrow> (case digit_val c of None \<Rightarrow> None | Some d \<Rightarrow> digits_us d cs))"

definition py_int :: "string \<Rightarrow> py_error + int" where
  "py_int s =
     (let t = py_strip s in
      if t \<noteq> [] \<and> hd t = CHR ''-'' then
        (case parse_nat (tl t) of None \<Rightarrow> Inl ValueError | Some n \<Rightarrow> Inr (- int n))
      else if t \<noteq> [] \<and> hd t = CHR ''+'' then
        (case parse_nat (tl t) of None \<Rightarrow> Inl ValueError | Some n \<Rightarrow> Inr (int n))
      else
        (case parse_nat t of None \<Rightarrow> Inl ValueError | Some n \<Rightarrow> Inr (int n)))"

section \<open>The session\<close>

text \<open>The local variables of one activation of \<open>main()\<close>: \<open>board\<close>, \<open>piece\<close> and
  \<open>move\<close>.\<close>

record session =
  sboard :: board
  spiece :: int
  smove :: "int option"

definition start_new :: session where
  "start_new = \<lparr>sboard = new_board, spiece = 0, smove = None\<rparr>"

definition change_turn :: "int \<Rightarrow> int" where
  "change_turn piece = (if piece = 0 then piece + 1 else 0)"

text \<open>\<open>end_logic\<close> tests the mover's string \<open>str(piece)\<close>; the printing is not modelled.\<close>

definition end_logic :: "board \<Rightarrow> int \<Rightarrow> bool" where
  "end_logic b piece = is_winning b (py_str (PyInt piece))"

text \<open>\<open>board.play(move, piece)\<close> with the search's column, which is \<open>None\<close> at a
  terminal root: \<open>can_play\<close> then evaluates \<open>0 <= None\<close> and raises TypeError.\<close>

fun play_move :: "board \<Rightarrow> int option \<Rightarrow> pyval \<Rightarrow> py_error + board" where
  "play_move b None piece = Inl TypeError"
| "play_move b (Some col) piece = play b col piece"

text \<open>The \<open>PLAY\<close> branch: a depth-5 search with the full window for the current
  piece, then the chosen column played.\<close>

definition cmd_play :: "(int list \<Rightarrow> int) \<Rightarrow> session \<Rightarrow> py_error + session" where
  "cmd_play rnd s =
     (case minimax rnd (sboard s) 5 NegInf PosInf True (PyInt (spiece s)) of
        Inl e \<Rightarrow> Inl e
      | Inr (_, move) \<Rightarrow>
          (case play_move (sboard s) move (PyInt (spiece s)) of
             Inl e \<Rightarrow> Inl e
           | Inr b' \<Rightarrow> Inr (s\<lparr>sboard := b', smove := move\<rparr>)))"

text \<open>The \<open>MOVE\<close> branch: \<open>int(command.replace("MOVE:",""))\<close>, then that column
  played.\<close>

definition cmd_move :: "session \<Rightarrow> string \<Rightarrow> py_error + session" where
  "cmd_move s command =
     (case py_int (py_replace ''MOVE:'' [] command) of
        Inl e \<Rightarrow> Inl e
      | Inr player_choice \<Rightarrow>
          (case play (sboard s) player_choice (PyInt (spiece s)) of
             Inl e \<Rightarrow> Inl e
           | Inr b' \<Rightarrow> Inr (s\<lparr>sboard := b', smove := Some player_choice\<rparr>)))"

text \<open>The two independent \<open>if\<close>s of the loop body, in source order: a line may
  contain both keywords.\<close>

definition run_command :: "(int list \<Rightarrow> int) \<Rightarrow> session \<Rightarrow> string \<Rightarrow> py_error + session" where
  "run_command rnd s command =
     (case (if sublist ''PLAY'' command then cmd_play rnd s else Inr s) of
        Inl e \<Rightarrow> Inl e
      | Inr s1 \<Rightarrow> if sublist ''MOVE'' command then cmd_move s1 command else Inr s1)"

section \<open>The program: nested activations of main()\<close>

text \<open>
  \<open>Running s ss\<close>: the innermost \<open>main()\<close> with locals \<open>s\<close> waits at \<open>input()\<close>;
  \<open>ss\<close> are the callers, innermost first, each suspended in the \<open>main()\<close> call of its
  \<open>RESET\<close> line. \<open>Exited\<close>: the outermost \<open>main()\<close> returned; \<open>Crashed e\<close>: an
  uncaught exception ended the program.
\<close>

datatype prog = Running session "session list" | Exited | Crashed py_error

text \<open>The tail of a loop iteration: \<open>if end_logic(board, piece): break\<close>, else
  \<open>piece = change_turn(piece)\<close>. A \<open>break\<close> returns from that \<open>main()\<close>, and its caller
  finishes its own suspended iteration the same way.\<close>

fun finish_turn :: "session \<Rightarrow> session list \<Rightarrow> prog" where
  "finish_turn s [] =
     (if end_logic (sboard s) (spiece s) then Exited
      else Running (s\<lparr>spiece := change_turn (spiece s)\<rparr>) [])"
| "finish_turn s (s' # ss) =
     (if end_logic (sboard s) (spiece s) then finish_turn s' ss
      else Running (s\<lparr>spiece := change_turn (spiece s)\<rparr>) (s' # ss))"

text \<open>One line of input: \<open>command = input().strip()\<close>, the \<open>PLAY\<close>/\<open>MOVE\<close> branches,
  then \<open>RESET\<close> enters a fresh \<open>main()\<close> (its \<open>start_new()\<close>) before the tail runs.\<close>

fun main_step :: "(int list \<Rightarrow> int) \<Rightarrow> prog \<Rightarrow> string \<Rightarrow> prog" where
  "main_step rnd (Running s ss) line =
     (let command = py_strip line in
      case run_command rnd s command of
        Inl e \<Rightarrow> Crashed e
      | Inr s' \<Rightarrow>
          if sublist ''RESET'' command then Running start_new (s' # ss)
          else finish_turn s' ss)"
| "main_step rnd Exited line = Exited"
| "main_step rnd (Crashed e) line = Crashed e"

definition main_init :: prog where
  "main_init = Running start_new []"

definition run_main :: "(int list \<Rightarrow> int) \<Rightarrow> string list \<Rightarrow> prog" where
  "run_main rnd lines = fold (\<lambda>line st. main_step rnd st line) lines main_init"

inductive reachable :: "(int list \<Rightarrow> int) \<Rightarrow> prog \<Rightarrow> bool" for rnd where
  init: "reachable rnd main_init"
| step: "reachable rnd st \<Longrightarrow> reachable rnd (main_step rnd st line)"

definition sess_inv :: "session \<Rightarrow> bool" where
  "sess_inv s \<longleftrightarrow> board_inv (grid (sboard s)) \<and> spiece s \<in> {0, 1}"

fun prog_inv :: "prog \<Rightarrow> bool" where
  "prog_inv (Running s ss) = list_all sess_inv (s # ss)"
| "prog_inv Exited = True"
| "prog_inv (Crashed e) = True"

text \<open>The line a front end sends to play column \<open>c\<close>.\<close>

definition move_line :: "int \<Rightarrow> string" where
  "move_line c = ''MOVE:'' @ int_str c"

section \<open>Parsing lemmas\<close>

lemma digit_val_char_of [simp]: "d < 10 \<Longrightarrow> digit_val (char_of (48 + d)) = Some d"
  by (simp add: digit_val_def)

lemma digits_us_digits:
  "list_all (\<lambda>c. digit_val c \<noteq> None) xs \<Longrightarrow>
     digits_us acc xs = Some (foldl (\<lambda>a c. 10 * a + the (digit_val c)) acc xs)"
  by (induction xs arbitrary: acc) auto

lemma nat_str_digits: "list_all (\<lambda>c. digit_val c \<noteq> None) (nat_str n)"
  by (induction n rule: nat_str.induct) (subst nat_str.simps; simp)

lemma nat_str_value: "foldl (\<lambda>a c. 10 * a + the (digit_val c)) 0 (nat_str n) = n"
  by (induction n rule: nat_str.induct) (subst nat_str.simps; simp)

lemma nat_str_ne: "nat_str n \<noteq> []"
  by (subst nat_str.simps) simp

lemma parse_nat_nat_str: "parse_nat (nat_str n) = Some n"
proof -
  obtain c cs where cs: "nat_str n = c # cs"
    using nat_str_ne by (cases "nat_str n") auto
  from nat_str_digits [of n] cs obtain d where d: "digit_val c = Some d"
    by auto
  from nat_str_digits [of n] cs have "list_all (\<lambda>c. digit_val c \<noteq> None) cs" by simp
  then have "digits_us d cs = Some (foldl (\<lambda>a c. 10 * a + the (digit_val c)) d cs)"
    by (rule digits_us_digits)
  with nat_str_value [of n] cs d show ?thesis
    by (simp add: parse_nat_def)
qed

lemma nat_str_hd: "hd (nat_str n) \<in> set (nat_str n)"
  using nat_str_ne by simp

lemma digit_not_space: "digit_val c \<noteq> None \<Longrightarrow> \<not> py_isspace c"
  by (auto simp: digit_val_def py_isspace_def Let_def split: if_splits)

lemma digit_not_sign: "digit_val c \<noteq> None \<Longrightarrow> c \<noteq> CHR ''-'' \<and> c \<noteq> CHR ''+'' \<and> c \<noteq> CHR ''M''"
  by (auto simp: digit_val_def)

lemma dropWhile_space_int_str: "dropWhile py_isspace (int_str i) = int_str i"
proof -
  obtain c cs where cs: "nat_str (nat \<bar>i\<bar>) = c # cs"
    using nat_str_ne by (cases "nat_str (nat \<bar>i\<bar>)") auto
  with nat_str_digits [of "nat \<bar>i\<bar>"] have "\<not> py_isspace c"
    by (simp add: digit_not_space)
  with cs show ?thesis
    by (auto simp: int_str_def py_isspace_def)
qed

lemma dropWhile_space_rev_int_str: "dropWhile py_isspace (rev (int_str i)) = rev (int_str i)"
proof -
  obtain c cs where cs: "rev (nat_str (nat \<bar>i\<bar>)) = c # cs"
    using nat_str_ne by (cases "rev (nat_str (nat \<bar>i\<bar>))") auto
  then have "c \<in> set (nat_str (nat \<bar>i\<bar>))"
    by (metis list.set_intros(1) set_rev)
  with nat_str_digits [of "nat \<bar>i\<bar>"] have "\<not> py_isspace c"
    by (simp add: digit_not_space list_all_iff)
  with cs show ?thesis
    by (auto simp: int_str_def)
qed

lemma py_strip_int_str [simp]: "py_strip (int_str i) = int_str i"
  by (simp add: py_strip_def dropWhile_space_int_str dropWhile_space_rev_int_str)

lemma py_int_int_str: "py_int (int_str i) = Inr i"
proof (cases "i < 0")
  case True
  then show ?thesis
    unfolding py_int_def py_strip_int_str by (simp add: int_str_def parse_nat_nat_str)
next
  case False
  obtain c cs where cs: "nat_str (nat i) = c # cs"
    using nat_str_ne by (cases "nat_str (nat i)") auto
  with nat_str_digits [of "nat i"] have "c \<noteq> CHR ''-'' \<and> c \<noteq> CHR ''+''"
    using digit_not_sign by auto
  with False cs parse_nat_nat_str [of "nat i"] show ?thesis
    unfolding py_int_def py_strip_int_str by (simp add: int_str_def)
qed

lemma py_replace_prefix:
  "old \<noteq> [] \<Longrightarrow> py_replace old new (old @ s) = new @ py_replace old new s"
  by (subst py_replace.simps) simp

lemma py_replace_absent:
  "old \<noteq> [] \<Longrightarrow> hd old \<notin> set s \<Longrightarrow> py_replace old new s = s"
proof (induction s)
  case Nil
  then show ?case by (simp add: py_replace.simps)
next
  case (Cons c s)
  then have "\<not> prefix old (c # s)"
    by (cases old) auto
  with Cons show ?case
    by (subst py_replace.simps) simp
qed

lemma M_not_in_nat_str: "CHR ''M'' \<notin> set (nat_str n)"
  using nat_str_digits [of n] digit_not_sign unfolding list_all_iff by blast

lemma M_not_in_int_str: "CHR ''M'' \<notin> set (int_str i)"
  by (simp add: int_str_def M_not_in_nat_str)


section \<open>What the driver takes from the search\<close>

text \<open>The maximising loop returns a column of its list once the first child has been
  scored: the first finite score beats the initial \<open>-inf\<close>.\<close>

lemma max_loop_col_in:
  assumes child: "\<And>tb a be. \<exists>x. f tb a be = Inr (Fin x)"
    and legal: "\<forall>col \<in> set cols. can_play b col"
    and start: "best \<in> S \<or> (m = NegInf \<and> cols \<noteq> [])" and sub: "set cols \<subseteq> S"
  shows "\<exists>v c. max_loop f b p alpha beta m best cols = Inr (v, c) \<and> c \<in> S"
  using legal start sub
proof (induction cols arbitrary: alpha m best)
  case Nil
  then show ?case by simp
next
  case (Cons col cols)
  from Cons.prems(1) obtain tb where tb: "play b col p = Inr tb"
    by (meson list.set_intros(1) play_Inr_iff)
  from child obtain x where s: "f tb alpha beta = Inr (Fin x)"
    by blast
  let ?best = "if Fin x > m then col else best"
  from Cons.prems(2,3) have best: "?best \<in> S"
    by auto
  from Cons.prems(1,3) have "\<forall>c \<in> set cols. can_play b c" "set cols \<subseteq> S" by simp_all
  from Cons.IH [OF this(1) _ this(2)] best
  have "\<exists>v c. max_loop f b p (max alpha (max m (Fin x))) beta (max m (Fin x)) ?best cols
          = Inr (v, c) \<and> c \<in> S" by blast
  with best show ?case
    unfolding max_loop_step [where f = f, OF tb s] by auto
qed

text \<open>On a board that is not terminal, the search at positive depth returns a playable
  column, whatever \<open>random.choice\<close> picks.\<close>

lemma minimax_legal_col:
  assumes "\<not> is_terminal_node b"
  shows "\<exists>v c. minimax rnd b (Suc d) alpha beta True p = Inr (v, Some c) \<and> can_play b c"
proof -
  have "\<exists>v c. max_loop (\<lambda>tb a be. map_sum id fst (minimax rnd tb d a be False p)) b p
          alpha beta NegInf (rnd (get_valid_locations b)) (get_valid_locations b) = Inr (v, c)
          \<and> c \<in> {c. can_play b c}"
    by (rule max_loop_col_in [OF child_finite valid_legal])
      (auto simp: not_terminal_legal [OF assms] get_valid_locations_iff)
  with assms not_terminal_legal [OF assms] show ?thesis
    by (auto simp: minimax.simps [of rnd b "Suc d"] py_choice_def)
qed

section \<open>The driver keeps every board well formed\<close>

lemma new_board_inv: "board_inv (grid new_board)"
  by code_simp

lemma sess_inv_start_new [simp]: "sess_inv start_new"
  by (simp add: sess_inv_def start_new_def new_board_inv)

lemma play_board_inv_step:
  "board_inv (grid b) \<Longrightarrow> play b col p = Inr b' \<Longrightarrow> board_inv (grid b')"
  unfolding board_inv_def using play_wf_grid play_gravity by blast

lemma cmd_play_inv:
  assumes "sess_inv s" and "cmd_play rnd s = Inr s'"
  shows "sess_inv s'"
proof -
  obtain r where "minimax rnd (sboard s) 5 NegInf PosInf True (PyInt (spiece s)) = Inr r"
    using assms(2) by (cases "minimax rnd (sboard s) 5 NegInf PosInf True (PyInt (spiece s))")
      (auto simp: cmd_play_def)
  with assms obtain c b' where "play (sboard s) c (PyInt (spiece s)) = Inr b'"
    and "s' = s\<lparr>sboard := b', smove := Some c\<rparr>"
    by (cases r; cases "snd r") (auto simp: cmd_play_def split: sum.splits)
  with assms(1) play_board_inv_step show ?thesis
    by (auto simp: sess_inv_def)
qed

lemma cmd_move_inv:
  assumes "sess_inv s" and "cmd_move s command = Inr s'"
  shows "sess_inv s'"
  using assms play_board_inv_step
  by (auto simp: cmd_move_def sess_inv_def split: sum.splits)

lemma run_command_inv:
  "sess_inv s \<Longrightarrow> run_command rnd s command = Inr s' \<Longrightarrow> sess_inv s'"
  unfolding run_command_def
  by (auto split: sum.splits if_splits dest: cmd_play_inv cmd_move_inv)

lemma change_turn_01 [simp]: "change_turn piece \<in> {0, 1}"
  by (simp add: change_turn_def)

lemma finish_turn_inv: "list_all sess_inv (s # ss) \<Longrightarrow> prog_inv (finish_turn s ss)"
  by (induction s ss rule: finish_turn.induct) (auto simp: sess_inv_def change_turn_def)

lemma main_step_inv: "prog_inv st \<Longrightarrow> prog_inv (main_step rnd st line)"
  by (cases "(rnd, st, line)" rule: main_step.cases)
    (auto simp: Let_def split: sum.splits dest: run_command_inv intro!: finish_turn_inv)

lemma reachable_inv: "reachable rnd st \<Longrightarrow> prog_inv st"
  by (induction rule: reachable.induct) (auto simp: main_init_def intro: main_step_inv)

section \<open>Runs and reachability\<close>

lemma run_main_snoc:
  "run_main rnd (lines @ [line]) = main_step rnd (run_main rnd lines) line"
  by (simp add: run_main_def)

lemma reachable_run: "reachable rnd (run_main rnd lines)"
proof (induction lines rule: rev_induct)
  case Nil
  then show ?case by (simp add: run_main_def reachable.init)
next
  case (snoc line lines)
  then show ?case by (simp add: run_main_snoc reachable.step)
qed

lemma reachable_iff_run: "reachable rnd st \<longleftrightarrow> (\<exists>lines. st = run_main rnd lines)"
proof
  assume "reachable rnd st"
  then show "\<exists>lines. st = run_main rnd lines"
  proof (induction rule: reachable.induct)
    case init
    have "main_init = run_main rnd []" by (simp add: run_main_def)
    then show ?case by blast
  next
    case (step st line)
    then obtain lines where "st = run_main rnd lines" by blast
    then have "main_step rnd st line = run_main rnd (lines @ [line])"
      by (simp add: run_main_snoc)
    then show ?case by blast
  qed
qed (auto simp: reachable_run)

section \<open>Command lines\<close>

lemma py_strip_id:
  assumes "xs \<noteq> []" and "\<not> py_isspace (hd xs)" and "\<not> py_isspace (last xs)"
  shows "py_strip xs = xs"
proof -
  have "dropWhile py_isspace xs = xs"
    using assms(1,2) by (cases xs) auto
  moreover have "dropWhile py_isspace (rev xs) = rev xs"
    using assms(1,3) by (cases "rev xs") (auto simp: hd_rev [symmetric])
  ultimately show ?thesis by (simp add: py_strip_def)
qed

lemma int_str_chars:
  "x \<in> set (int_str i) \<Longrightarrow> digit_val x \<noteq> None \<or> x = CHR ''-''"
  using nat_str_digits [of "nat \<bar>i\<bar>"]
  by (auto simp: int_str_def list_all_iff split: if_splits)

lemma last_int_str: "digit_val (last (int_str i)) \<noteq> None"
proof -
  have "digit_val (last (nat_str n)) \<noteq> None" for n
    using nat_str_digits [of n] nat_str_ne [of n] by (simp add: list_all_iff)
  then show ?thesis
    by (simp add: int_str_def nat_str_ne)
qed

lemma sublist_hd_in: "sublist (x # xs) ys \<Longrightarrow> x \<in> set ys"
  by (auto simp: sublist_def)

lemma move_line_strip [simp]: "py_strip (move_line c) = move_line c"
  using last_int_str [of c] digit_not_space nat_str_ne
  unfolding move_line_def
  by (intro py_strip_id) (auto simp: py_isspace_def int_str_def)

lemma move_line_keywords [simp]:
  "\<not> sublist ''PLAY'' (move_line c)" "sublist ''MOVE'' (move_line c)"
  "\<not> sublist ''RESET'' (move_line c)"
proof -
  have "digit_val (CHR ''P'') = None" "digit_val (CHR ''R'') = None"
    by code_simp+
  then have "CHR ''P'' \<notin> set (int_str c)" "CHR ''R'' \<notin> set (int_str c)"
    using int_str_chars [of _ c] by force+
  then show "\<not> sublist ''PLAY'' (move_line c)" "\<not> sublist ''RESET'' (move_line c)"
    unfolding move_line_def by (auto dest!: sublist_hd_in)
  show "sublist ''MOVE'' (move_line c)"
    unfolding move_line_def using sublist_appendI [of "''MOVE''" "[]" "'':'' @ int_str c"] by simp
qed

lemma reset_line [simp]:
  "py_strip ''RESET'' = ''RESET''" "\<not> sublist ''PLAY'' ''RESET''" "\<not> sublist ''MOVE'' ''RESET''"
  "sublist ''RESET'' ''RESET''"
  by code_simp+

lemma play_line [simp]:
  "py_strip ''PLAY'' = ''PLAY''" "sublist ''PLAY'' ''PLAY''" "\<not> sublist ''MOVE'' ''PLAY''"
  "\<not> sublist ''RESET'' ''PLAY''"
  by code_simp+

lemma py_replace_move_line: "py_replace ''MOVE:'' [] (move_line c) = int_str c"
  using py_replace_prefix [of "''MOVE:''" "[]" "int_str c"]
    py_replace_absent [of "''MOVE:''" "int_str c" "[]"] M_not_in_int_str [of c]
  unfolding move_line_def by simp

lemma cmd_move_line:
  "cmd_move s (move_line c) =
     (case play (sboard s) c (PyInt (spiece s)) of
        Inl e \<Rightarrow> Inl e
      | Inr b' \<Rightarrow> Inr (s\<lparr>sboard := b', smove := Some c\<rparr>))"
  by (simp add: cmd_move_def py_replace_move_line py_int_int_str)

lemma main_step_move_line:
  "main_step rnd (Running s ss) (move_line c) =
     (case play (sboard s) c (PyInt (spiece s)) of
        Inl e \<Rightarrow> Crashed e
      | Inr b' \<Rightarrow> finish_turn (s\<lparr>sboard := b', smove := Some c\<rparr>) ss)"
  by (simp add: run_command_def cmd_move_line split: sum.split)

lemma cmd_play_terminal:
  assumes "get_valid_locations (sboard s) = []"
  shows "cmd_play rnd s = Inl TypeError"
proof -
  have "is_terminal_node (sboard s)"
    using assms by (simp add: is_terminal_node_def)
  then show ?thesis
    by (simp add: cmd_play_def minimax.simps [of rnd "sboard s"])
qed

section \<open>Properties of the driver\<close>

text \<open>
  C21. Whatever lines are typed, every activation of \<open>main()\<close> in the resulting
  program state holds a well-shaped board obeying gravity and a piece 0 or 1.
\<close>

theorem run_main_inv: "prog_inv (run_main rnd lines)"
  using reachable_inv reachable_run by blast

text \<open>
  C22. RESET does not reset the game: a RESET line suspends the current game under a
  fresh one, and the move that wins the fresh game does not end the program but
  resumes the suspended game, whose player's turn is then passed.
\<close>

theorem reset_resumes_caller:
  assumes "play (sboard s') c (PyInt (spiece s')) = Inr b'" and "end_logic b' (spiece s')"
    and "\<not> end_logic (sboard s) (spiece s)"
  shows "main_step rnd (Running s ss) ''RESET'' = Running start_new (s # ss) \<and>
         main_step rnd (Running s' (s # ss)) (move_line c) =
           Running (s\<lparr>spiece := change_turn (spiece s)\<rparr>) ss"
proof
  show "main_step rnd (Running s ss) ''RESET'' = Running start_new (s # ss)"
    by (simp add: run_command_def)
  show "main_step rnd (Running s' (s # ss)) (move_line c) =
      Running (s\<lparr>spiece := change_turn (spiece s)\<rparr>) ss"
    using assms unfolding main_step_move_line by (cases ss) simp_all
qed

text \<open>
  C23. A \<open>MOVE:c\<close> line on a playable column that does not win drops the current
  piece in column \<open>c\<close>, records \<open>c\<close> as the move and passes the turn to the other piece.
\<close>

theorem main_step_move_next_turn:
  assumes "play (sboard s) c (PyInt (spiece s)) = Inr b'" and "\<not> end_logic b' (spiece s)"
  shows "main_step rnd (Running s ss) (move_line c) =
           Running (s\<lparr>sboard := b', smove := Some c, spiece := change_turn (spiece s)\<rparr>) ss"
  using assms unfolding main_step_move_line by (cases ss) simp_all

text \<open>
  C24. A winning \<open>MOVE:c\<close> line in the outermost game ends the program.
\<close>

theorem main_step_move_win_exits:
  assumes "play (sboard s) c (PyInt (spiece s)) = Inr b'" and "end_logic b' (spiece s)"
  shows "main_step rnd (Running s []) (move_line c) = Exited"
  using assms unfolding main_step_move_line by simp

text \<open>
  C25. A \<open>MOVE:c\<close> line on a full or out-of-range column is not rejected and retried:
  the ValueError of \<open>play\<close> is uncaught and ends the program.
\<close>

theorem main_step_move_illegal:
  "\<not> can_play (sboard s) c \<Longrightarrow> main_step rnd (Running s ss) (move_line c) = Crashed ValueError"
  unfolding main_step_move_line by (simp add: play_illegal)

text \<open>
  C26. A \<open>PLAY\<close> line on a full board ends the program with a TypeError: the search
  returns no column and \<open>play(None, piece)\<close> fails in \<open>0 <= None\<close> (the specification
  asks for a NoLegalMoveError).
\<close>

theorem main_step_play_full_board:
  "get_valid_locations (sboard s) = [] \<Longrightarrow> main_step rnd (Running s ss) ''PLAY'' = Crashed TypeError"
  by (simp add: run_command_def cmd_play_terminal)

text \<open>
  C27. On a board where the game is not over, \<open>PLAY\<close> never raises: the depth-5 search
  returns a playable column and the current piece is dropped there.
\<close>

theorem play_command_legal:
  assumes "\<not> is_terminal_node (sboard s)"
  shows "\<exists>c b'. can_play (sboard s) c \<and> play (sboard s) c (PyInt (spiece s)) = Inr b' \<and>
           run_command rnd s ''PLAY'' = Inr (s\<lparr>sboard := b', smove := Some c\<rparr>)"
proof -
  obtain v c where mm: "minimax rnd (sboard s) 5 NegInf PosInf True (PyInt (spiece s)) = Inr (v, Some c)"
    and cp: "can_play (sboard s) c"
    using minimax_legal_col [OF assms, of rnd 4 NegInf PosInf "PyInt (spiece s)"] by (auto simp: numeral_eq_Suc)
  from cp obtain b' where p: "play (sboard s) c (PyInt (spiece s)) = Inr b'"
    using play_Inr_iff by blast
  with mm have "run_command rnd s ''PLAY'' = Inr (s\<lparr>sboard := b', smove := Some c\<rparr>)"
    by (simp add: run_command_def cmd_play_def)
  with cp p show ?thesis by blast
qed

text \<open>
  C28. A line that contains none of \<open>PLAY\<close>, \<open>MOVE\<close>, \<open>RESET\<close> (an empty line, a typo)
  drops no piece but still passes the turn to the other piece.
\<close>

theorem main_step_no_keyword:
  assumes "\<not> sublist ''PLAY'' (py_strip line)" and "\<not> sublist ''MOVE'' (py_strip line)"
    and "\<not> sublist ''RESET'' (py_strip line)" and "\<not> end_logic (sboard s) (spiece s)"
  shows "main_step rnd (Running s ss) line = Running (s\<lparr>spiece := change_turn (spiece s)\<rparr>) ss"
  using assms by (cases ss) (simp_all add: run_command_def)

end
