(* ===== verification/Choice.thy ===== *)
theory Choice
  imports Search
begin

text \<open>
  The column the search returns at the root of \<open>minimax\<close> (\<open>src/src/main.py\<close>,
  lines 93--105), against a specification that does not mention pruning or
  \<open>random.choice\<close>: the score of each legal column is the exhaustive minimax value of
  the board after it (\<open>child_value\<close>), and the chosen column is the first, in the
  order of \<open>get_valid_locations\<close>, whose score is the maximum (\<open>first_best\<close>), as the
  design notes of the specification describe the tie-break. At depth 1 this is the
  first column that wins at once (\<open>wins_by\<close>).
\<close>

definition child_value :: "board \<Rightarrow> nat \<Rightarrow> pyval \<Rightarrow> int \<Rightarrow> escore" where
  "child_value b d p c = (case play b c p of Inl _ \<Rightarrow> NegInf | Inr tb \<Rightarrow> mm_value tb d False p)"

definition first_best :: "(int \<Rightarrow> escore) \<Rightarrow> int list \<Rightarrow> int" where
  "first_best f cs = hd (filter (\<lambda>c. f c = maxs (map f cs)) cs)"

definition wins_by :: "board \<Rightarrow> pyval \<Rightarrow> int \<Rightarrow> bool" where
  "wins_by b p c = (case play b c p of Inl _ \<Rightarrow> False | Inr tb \<Rightarrow> is_winning tb (py_str p))"

section \<open>Maxima of score lists\<close>

lemma maxs_ge: "x \<in> set xs \<Longrightarrow> x \<le> maxs xs"
  by (induction xs) (auto simp: le_max_iff_disj)

lemma maxs_le: "\<forall>x \<in> set xs. x \<le> m \<Longrightarrow> maxs xs \<le> max NegInf m"
  by (induction xs) auto

lemma maxs_eqI: "\<forall>x \<in> set xs. x \<le> m \<Longrightarrow> m \<in> set xs \<Longrightarrow> maxs xs = m"
  using maxs_ge [of m xs] maxs_le [of xs m] by simp

lemma first_best_Cons:
  "first_best f (x # xs) = (if maxs (map f xs) \<le> f x then x else first_best f xs)"
proof (cases "maxs (map f xs) \<le> f x")
  case True
  then have "max (f x) (maxs (map f xs)) = f x" by (simp add: max_def)
  with True show ?thesis by (simp add: first_best_def)
next
  case False
  then have "max (f x) (maxs (map f xs)) = maxs (map f xs)" "f x \<noteq> maxs (map f xs)"
    by (auto simp: max_def)
  with False show ?thesis by (simp add: first_best_def)
qed

section \<open>The children of the root\<close>

lemma children_values:
  "\<forall>c \<in> set cs. can_play b c \<Longrightarrow>
     map (\<lambda>b'. mm_value b' d False p) (children b p cs) = map (child_value b d p) cs"
proof (induction cs)
  case Nil
  then show ?case by simp
next
  case (Cons c cs)
  then obtain tb where "play b c p = Inr tb"
    by (meson list.set_intros(1) play_Inr_iff)
  with Cons show ?case by (simp add: child_value_def)
qed

lemma mm_value_root:
  "\<not> is_terminal_node b \<Longrightarrow>
     mm_value b (Suc d) True p = maxs (map (child_value b d p) (get_valid_locations b))"
  by (simp add: mm_value.simps [of b "Suc d"] children_values valid_legal)

lemma child_value_finite:
  assumes "can_play b c"
  shows "\<exists>x. child_value b d p c = Fin x"
proof -
  from assms obtain tb where tb: "play b c p = Inr tb"
    using play_Inr_iff by blast
  have "NegInf < PosInf" by simp
  from minimax_fishburn [OF this, of rnd tb d False p] obtain v c'
    where mm: "minimax rnd tb d NegInf PosInf False p = Inr (v, c')"
      and fb: "fishburn NegInf PosInf (mm_value tb d False p) v" by blast
  from child_finite [of rnd tb d NegInf PosInf False p] mm obtain x where "v = Fin x"
    by auto
  with fb have "mm_value tb d False p = Fin x"
    using fishburn_full_window by (metis)
  with tb show ?thesis by (simp add: child_value_def)
qed

text \<open>Against a window \<open>(m, inf)\<close>, a finite fail-soft score beats \<open>m\<close> exactly when the
  true value does, and raises \<open>m\<close> to the same maximum.\<close>

lemma fishburn_upper_window:
  "fishburn m PosInf v (Fin x) \<Longrightarrow> (m < Fin x \<longleftrightarrow> m < v) \<and> max m (Fin x) = max m v"
  unfolding fishburn_def by (cases "Fin x \<le> m") (auto simp: max_def)

section \<open>The root loop\<close>

text \<open>
  At the root the window's upper end stays \<open>inf\<close> and its lower end is the running
  maximum, so the loop never cuts off: it returns the maximum of the true child values
  and moves its column only on a strict improvement, i.e. to the first best column.
\<close>

lemma root_loop:
  assumes "\<forall>c \<in> set cols. can_play b c" and "m < PosInf"
  shows "max_loop (\<lambda>tb a be. map_sum id fst (minimax rnd tb d a be False p)) b p m PosInf m best cols =
           Inr (max m (maxs (map (child_value b d p) cols)),
                if m < maxs (map (child_value b d p) cols)
                then first_best (child_value b d p) cols else best)"
  using assms
proof (induction cols arbitrary: m best)
  case Nil
  then show ?case by simp
next
  case (Cons col cols)
  let ?f = "\<lambda>tb a be. map_sum id fst (minimax rnd tb d a be False p)"
  let ?cv = "child_value b d p" and ?M = "maxs (map (child_value b d p) cols)"
  from Cons.prems(1) obtain tb where tb: "play b col p = Inr tb"
    by (meson list.set_intros(1) play_Inr_iff)
  from minimax_fishburn [OF Cons.prems(2), of rnd tb d False p] obtain r c
    where mm: "minimax rnd tb d m PosInf False p = Inr (r, c)"
      and fb: "fishburn m PosInf (mm_value tb d False p) r" by blast
  from child_finite [of rnd tb d m PosInf False p] mm obtain x where rx: "r = Fin x"
    by auto
  have f: "?f tb m PosInf = Inr (Fin x)" using mm rx by simp
  have cv: "?cv col = mm_value tb d False p" by (simp add: child_value_def tb)
  from fishburn_upper_window [of m "mm_value tb d False p" x] fb rx cv
  have hi: "m < Fin x \<longleftrightarrow> m < ?cv col" "max m (Fin x) = max m (?cv col)" by simp_all
  have lt: "max m (?cv col) < PosInf"
    using hi(2) Cons.prems(2) by (metis Fin_less_PosInf max_less_iff_conj)
  have step: "max_loop ?f b p m PosInf m best (col # cols) =
      max_loop ?f b p (max m (?cv col)) PosInf (max m (?cv col)) (if m < ?cv col then col else best) cols"
  proof -
    have np: "\<not> PosInf \<le> max m (?cv col)" using lt by (simp only: not_le)
    show ?thesis
      unfolding max_loop_step [where f = ?f, OF tb f] max.left_idem hi
      by (rule if_not_P [OF np])
  qed
  from Cons.prems(1) have legal: "\<forall>c \<in> set cols. can_play b c" by simp
  note IH = Cons.IH [OF legal lt, of "if m < ?cv col then col else best"]
  show ?case
  proof (cases "m < ?cv col")
    case True
    then show ?thesis
      unfolding step IH using first_best_Cons [of ?cv col cols]
      by (cases "?M \<le> ?cv col") (auto simp: max_def not_le)
  next
    case False
    then show ?thesis
      unfolding step IH using first_best_Cons [of ?cv col cols]
      by (cases "?M \<le> ?cv col") (auto simp: max_def not_le)
  qed
qed

lemma minimax_root_loop:
  assumes "\<not> is_terminal_node b"
  shows "minimax rnd b (Suc d) NegInf PosInf True p =
    map_sum id (\<lambda>(v, c). (v, Some c))
      (max_loop (\<lambda>tb a be. map_sum id fst (minimax rnd tb d a be False p)) b p NegInf PosInf NegInf
        (rnd (get_valid_locations b)) (get_valid_locations b))"
  using assms not_terminal_legal [OF assms]
  by (simp add: minimax.simps [of rnd b "Suc d"] py_choice_def split: sum.split)

lemma root_max_finite:
  assumes "\<not> is_terminal_node b"
  shows "NegInf < maxs (map (child_value b d p) (get_valid_locations b))"
proof -
  obtain c cs where cs: "get_valid_locations b = c # cs"
    using not_terminal_legal [OF assms] by (cases "get_valid_locations b") auto
  then have "can_play b c" using valid_legal by (metis list.set_intros(1))
  then obtain x where "child_value b d p c = Fin x" using child_value_finite by blast
  with cs maxs_ge [of "child_value b d p c" "map (child_value b d p) (c # cs)"]
  show ?thesis by (simp add: less_max_iff_disj)
qed

text \<open>At depth 1 a child is scored by its leaf value: \<open>1000000\<close> exactly when the move
  wins at once, less otherwise (a loss, a draw, or a heuristic of at most 18).\<close>

lemma child_value_depth0:
  assumes wf: "wf_grid (grid b)" and cp: "can_play b c"
  shows "(child_value b 0 p c = Fin 1000000 \<longleftrightarrow> wins_by b p c) \<and> child_value b 0 p c \<le> Fin 1000000"
proof -
  from cp obtain tb where tb: "play b c p = Inr tb"
    using play_Inr_iff by blast
  have wf': "wf_grid (grid tb)" by (rule play_wf_grid [OF wf tb])
  have cv: "child_value b 0 p c =
      Fin (if is_terminal_node tb then terminal_score tb p else eval_board tb p)"
    by (simp add: child_value_def tb mm_value.simps [of tb 0])
  show ?thesis
  proof (cases "is_winning tb (py_str p)")
    case True
    then show ?thesis
      by (simp add: cv wins_by_def tb terminal_score_def eval_board_def)
  next
    case False
    have "terminal_score tb p < 1000000" "eval_board tb p < 1000000"
      using False eval_board_le [OF wf' False] by (simp_all add: terminal_score_def)
    with False show ?thesis
      by (simp add: cv wins_by_def tb)
  qed
qed

section \<open>Properties of the root choice\<close>

text \<open>
  C17. On a board where the game is not over, the full-window search at any positive
  depth returns the maximum of the exhaustive minimax values of the playable columns
  and the first playable column that attains it, whatever random.choice returns.
\<close>

theorem minimax_root_choice:
  assumes "\<not> is_terminal_node b"
  shows "minimax rnd b (Suc d) NegInf PosInf True p =
           Inr (maxs (map (child_value b d p) (get_valid_locations b)),
                Some (first_best (child_value b d p) (get_valid_locations b)))"
  unfolding minimax_root_loop [OF assms] root_loop [OF valid_legal NegInf_less_PosInf]
  using root_max_finite [OF assms, of d p] by simp

text \<open>
  C18. With one ply of search, on a well-shaped board where the game is not over and
  some playable column wins at once, the search scores 1000000 and returns the first
  such column (the specification's scenario: column 3 for three pieces in a row on
  the bottom row).
\<close>

theorem minimax_takes_first_win:
  assumes wf: "wf_grid (grid b)" and live: "\<not> is_terminal_node b"
    and win: "list_ex (wins_by b p) (get_valid_locations b)"
  shows "minimax rnd b 1 NegInf PosInf True p =
           Inr (Fin 1000000, Some (hd (filter (wins_by b p) (get_valid_locations b))))"
proof -
  let ?cv = "child_value b 0 p" and ?vs = "get_valid_locations b"
  have val: "(?cv c = Fin 1000000 \<longleftrightarrow> wins_by b p c) \<and> ?cv c \<le> Fin 1000000"
    if "c \<in> set ?vs" for c
    using child_value_depth0 [OF wf] valid_legal that by blast
  from win obtain c where c: "c \<in> set ?vs" "wins_by b p c"
    by (auto simp: list_ex_iff)
  have M: "maxs (map ?cv ?vs) = Fin 1000000"
  proof (rule maxs_eqI)
    show "\<forall>x \<in> set (map ?cv ?vs). x \<le> Fin 1000000" using val by auto
    show "Fin 1000000 \<in> set (map ?cv ?vs)" using val [OF c(1)] c by force
  qed
  have "filter (\<lambda>c. ?cv c = maxs (map ?cv ?vs)) ?vs = filter (wins_by b p) ?vs"
    unfolding M using val by (auto intro: filter_cong)
  then have "first_best ?cv ?vs = hd (filter (wins_by b p) ?vs)"
    by (simp add: first_best_def)
  with M show ?thesis
    unfolding One_nat_def minimax_root_loop [OF live] root_loop [OF valid_legal NegInf_less_PosInf]
    by simp
qed

end
