(* ===== verification/Spec2Isabelle.thy ===== *)
theory Spec2Isabelle
  imports Driver Choice
begin

text \<open>
  \<^bold>\<open>A verified model of the Connect-Four engine of \<open>src/src/main.py\<close>.\<close>

  \<^bold>\<open>The program.\<close> One Python file. Class \<open>Board\<close> (lines 5--75) keeps a
  \<open>6 \<times> 7\<close> grid of one-character strings (row 0 on top, \<open>' '\<close> empty), the move
  history and the last move; \<open>play\<close> drops a piece into a column and raises
  \<open>ValueError\<close> on a full or out-of-range column; \<open>is_winning\<close> scans rows, columns
  and both diagonals for four equal cells; \<open>get_valid_locations\<close> lists the playable
  columns; \<open>print_board\<close> renders the grid. \<open>minimax\<close> (78--123) is a depth-bounded
  minimax with fail-soft alpha-beta pruning that copies the board for every child and
  starts each node with a \<open>random.choice\<close> column; \<open>eval_board\<close> (125--141) scores
  the horizon. The driver \<open>main\<close> (173--198) reads one stripped line per turn, calls
  \<open>minimax\<close> with depth 5 and plays its column for a line containing \<open>PLAY\<close>, plays
  \<open>int(command.replace("MOVE:",""))\<close> for one containing \<open>MOVE\<close>, calls \<open>main()\<close>
  recursively for one containing \<open>RESET\<close>, then stops when \<open>end_logic\<close> sees the
  current piece win and otherwise alternates the int pieces \<open>0\<close>/\<open>1\<close> with
  \<open>change_turn\<close>.

  \<^bold>\<open>Theories.\<close>
  \<^item> \<open>Prelude\<close>: Python errors (\<open>py_error\<close>), the piece values \<open>pyval\<close> with
    \<open>str()\<close> as \<open>py_str\<close>, scores with \<open>\<plusminus>math.inf\<close> as the linear order
    \<open>escore\<close>, the fail-soft contract \<open>fishburn\<close> and its one-step lemmas, and list
    and integer-index lemmas.
  \<^item> \<open>Board\<close>: the record \<open>board\<close> (fields as in \<open>Board.__init__\<close>),
    \<open>new_board\<close>, \<open>can_play\<close>, \<open>find_open_row\<close>/\<open>get_next_open_row\<close>,
    \<open>play\<close> (result \<open>py_error + board\<close>), \<open>get_valid_locations\<close>, \<open>print_board\<close>;
    the invariants \<open>wf_grid\<close> (shape) and \<open>gravity\<close>; the abstraction \<open>stacks\<close>
    (each column as a bottom-up stack) and \<open>replay\<close> (the history read column by
    column).
  \<^item> \<open>Win\<close>: \<open>is_winning\<close> and its specification \<open>has_four\<close> (a run of four in
    any of the eight directions).
  \<^item> \<open>Eval\<close>: \<open>opponent_of\<close> (the expression \<open>'1' if piece == '0' else '0'\<close>)
    and \<open>eval_board\<close>.
  \<^item> \<open>Search\<close>: \<open>is_terminal_node\<close>, \<open>terminal_score\<close>, \<open>py_choice\<close>
    (\<open>random.choice\<close> through an arbitrary choice function \<open>rnd\<close>), the two loops
    \<open>max_loop\<close>/\<open>min_loop\<close> and \<open>minimax\<close>; the reference \<open>mm_value\<close>
    (exhaustive minimax over \<open>children\<close>, with \<open>maxs\<close>/\<open>mins\<close>).
  \<^item> \<open>Choice\<close>: the specification of the root move: \<open>child_value\<close> (the exhaustive
    value of the board after a column), \<open>first_best\<close> (the first column of maximal
    value) and \<open>wins_by\<close> (a column that wins at once).
  \<^item> \<open>Driver\<close>: Python's \<open>strip\<close>, \<open>replace\<close> and \<open>int()\<close> on strings
    (\<open>py_strip\<close>, \<open>py_replace\<close>, \<open>py_int\<close>); the locals of one \<open>main()\<close> as the
    record \<open>session\<close> with \<open>start_new\<close>, \<open>change_turn\<close>, \<open>end_logic\<close>; the
    \<open>PLAY\<close> and \<open>MOVE\<close> branches (\<open>cmd_play\<close>, \<open>cmd_move\<close>, \<open>run_command\<close>);
    the program as the datatype \<open>prog\<close>: running with a stack of suspended
    \<open>main()\<close> activations (one per \<open>RESET\<close>), exited, or crashed with an uncaught
    exception; \<open>main_step\<close> consumes one input line, \<open>finish_turn\<close> is the loop's
    tail (\<open>break\<close> returns to the caller, which finishes its own iteration),
    \<open>run_main\<close> folds it over the input and \<open>reachable\<close> is its inductive
    reachability relation.
  \<^item> this theory: concrete boards; concrete runs, evaluated by \<open>code_simp\<close>, that are
    the unit test \<open>test_play_middle\<close> and the evidence of the findings
    (\<open>column_full_raises\<close>, \<open>spec_scenario_column_not_full\<close>,
    \<open>bottom_row_wins\<close>, \<open>engine_int0_misses_win\<close>, \<open>reset_resumes_old_game\<close>);
    and the witnesses of the theorems with hypotheses.

  \<^bold>\<open>What is proved.\<close>
  \<^item> Search: for every window \<open>alpha < beta\<close> the pruning search returns a score in the
    fail-soft relation to \<open>mm_value\<close> (\<open>minimax_fishburn\<close>), so clipped to the window
    the two agree (\<open>minimax_window\<close>) and at the root window
    \<open>(-inf, inf)\<close> the score is exactly the minimax value (\<open>minimax_root_value\<close>).
    The search never raises and always returns an int score (\<open>minimax_total\<close>); the
    random initial column never changes the result (\<open>minimax_random_irrelevant\<close>);
    finished games score \<open>1000000\<close>, \<open>-1000000\<close>, \<open>0\<close>
    (\<open>minimax_win\<close>, \<open>minimax_loss\<close>, \<open>minimax_draw\<close>).
  \<^item> Choice: on a live board the root returns the maximum of the children's exact
    values and the first column attaining it (\<open>minimax_root_choice\<close>, via
    \<open>root_loop\<close>: the root window never cuts off); at depth 1 it takes the first
    column that wins at once (\<open>minimax_takes_first_win\<close>).
  \<^item> A defect: the driver passes the int \<open>0\<close>; \<open>piece == '0'\<close> is then false, so
    the opponent of int \<open>0\<close> is \<open>'0'\<close> itself. The search for int \<open>0\<close> never
    scores below 0 (\<open>minimax_int0_never_loses\<close>), scores a lost position as a draw
    (\<open>minimax_int0_loss_as_draw\<close>) and can miss an immediate win
    (\<open>engine_int0_misses_win\<close>).
  \<^item> Board: \<open>play\<close> raises exactly \<open>ValueError\<close> and exactly on illegal columns
    (\<open>play_Inl_iff\<close>); it keeps \<open>wf_grid\<close> and \<open>gravity\<close>
    (\<open>play_board_inv\<close>) and pushes the piece on its column's stack
    (\<open>play_stacks\<close>); a column is playable exactly when its stack is not full
    (\<open>can_play_stacks\<close>); the stacks stay the replay of the history
    (\<open>play_replay\<close>); \<open>print_board\<close> draws cell \<open>(r, c)\<close> at character
    \<open>16 r + 2 c + 1\<close> (\<open>print_board_cell\<close>); \<open>get_valid_locations\<close> lists the
    legal columns in order (\<open>get_valid_locations_spec\<close>).
  \<^item> Win: \<open>is_winning\<close> equals \<open>has_four\<close> (\<open>is_winning_spec\<close>).
  \<^item> Eval: while the game is undecided, a play into the centre column raises the
    heuristic by 3 and any other play leaves it unchanged (\<open>eval_board_play_step\<close>).
  \<^item> Driver: every state reachable by any input keeps the board invariant in every
    activation and the piece in \<open>{0, 1}\<close> (\<open>run_main_inv\<close>, by rule induction on
    \<open>reachable\<close>); a legal
    non-winning move passes the turn, a winning one in the outer game exits, an illegal
    one crashes with ValueError (\<open>main_step_move_next_turn\<close>,
    \<open>main_step_move_win_exits\<close>, \<open>main_step_move_illegal\<close>); \<open>PLAY\<close> on a live
    board always plays a legal column (\<open>play_command_legal\<close>).
  \<^item> Driver defects against the specification: \<open>PLAY\<close> on a full board crashes with a
    TypeError from \<open>play(None, piece)\<close> (\<open>main_step_play_full_board\<close>); a line
    without a keyword passes the turn without a move (\<open>main_step_no_keyword\<close>);
    \<open>RESET\<close> nests a new game, and the move that wins it resumes the suspended old
    game instead of ending the program (\<open>reset_resumes_caller\<close>).

  \<^bold>\<open>Bounds and fuel.\<close> No fuel is needed: \<open>minimax\<close> recurses on its \<open>nat\<close>
  depth (the driver passes 5; Python's \<open>depth == 0\<close> test on a negative int is not
  modelled), the loops on the column list, \<open>py_replace\<close> on the length of the
  remaining string. The driver's \<open>while True\<close> loop is not a recursion of the model:
  \<open>main_step\<close> is one iteration and a run is a finite list of input lines, so every
  function of the model is total. Concrete searches that expand nodes run at depth 3 or
  less so that the kernel evaluates them quickly; the depth-5 \<open>PLAY\<close> of the driver is
  covered by the general theorems and evaluated only on finished boards.

  \<^bold>\<open>Not modelled.\<close> Console output (\<open>print\<close>, and the prints inside
  \<open>end_logic\<close> and \<open>start_new\<close>), \<open>player_loop\<close> (never called), end of input
  (\<open>EOFError\<close> from \<open>input()\<close>: a run simply stops after its last line), Python's
  recursion limit on deeply nested \<open>RESET\<close>s, and non-ASCII whitespace and digits in
  \<open>strip\<close>/\<open>int()\<close>; \<open>random\<close> is abstracted into the choice function, which is
  proved irrelevant.
\<close>

section \<open>Concrete boards\<close>

text \<open>A sequence of \<open>play\<close> calls, stopping at the first exception.\<close>

fun play_seq :: "board \<Rightarrow> (int \<times> pyval) list \<Rightarrow> py_error + board" where
  "play_seq b [] = Inr b"
| "play_seq b ((col, p) # ms) =
     (case play b col p of Inl e \<Rightarrow> Inl e | Inr b' \<Rightarrow> play_seq b' ms)"

definition zero_row_moves :: "(int \<times> pyval) list" where
  "zero_row_moves = [(0, PyInt 0), (1, PyInt 0), (2, PyInt 0), (3, PyInt 0)]"

definition one_row_moves :: "(int \<times> pyval) list" where
  "one_row_moves = [(0, PyInt 1), (1, PyInt 1), (2, PyInt 1), (3, PyInt 1)]"

definition near_win_moves :: "(int \<times> pyval) list" where
  "near_win_moves =
     [(0, PyInt 0), (0, PyInt 1), (1, PyInt 0), (1, PyInt 1), (2, PyInt 0), (2, PyInt 1)]"

definition spec_scenario_moves :: "(int \<times> pyval) list" where
  "spec_scenario_moves =
     [(3, PyInt 0), (3, PyInt 0), (3, PyInt 0), (2, PyInt 1), (2, PyInt 1), (3, PyInt 0)]"

text \<open>A full grid in which neither piece has four in a row.\<close>

definition draw_grid :: grid where
  "draw_grid =
     [[''0'', ''0'', ''1'', ''1'', ''0'', ''0'', ''1''],
      [''1'', ''1'', ''0'', ''0'', ''1'', ''1'', ''0''],
      [''0'', ''0'', ''1'', ''1'', ''0'', ''0'', ''1''],
      [''1'', ''1'', ''0'', ''0'', ''1'', ''1'', ''0''],
      [''0'', ''0'', ''1'', ''1'', ''0'', ''0'', ''1''],
      [''1'', ''1'', ''0'', ''0'', ''1'', ''1'', ''0'']]"

text \<open>The driver scenario of RESET: one move, RESET, then a new game that the
  first player wins in column 0.\<close>

definition reset_lines :: "string list" where
  "reset_lines =
     [''MOVE:0'', ''RESET'', ''MOVE:0'', ''MOVE:1'', ''MOVE:0'', ''MOVE:1'', ''MOVE:0'',
      ''MOVE:1'', ''MOVE:0'']"

text \<open>A session whose board is full without a winner.\<close>

definition draw_session :: session where
  "draw_session = \<lparr>sboard = new_board\<lparr>grid := draw_grid\<rparr>, spiece = 0, smove = None\<rparr>"

section \<open>Concrete runs: the unit test and the evidence of the findings\<close>

lemma case_sum_InrE:
  assumes "case x of Inl _ \<Rightarrow> False | Inr b \<Rightarrow> P b"
  obtains b where "x = Inr b" and "P b"
  using assms by (cases x) auto

text \<open>
  Six pieces fill column 3; a seventh \<open>play\<close> there raises \<open>ValueError\<close>.
\<close>

lemma column_full_raises:
  "case play_seq new_board (replicate 6 (3, PyInt 0)) of
     Inl _ \<Rightarrow> False
   | Inr b \<Rightarrow> \<not> can_play b 3 \<and> play b 3 (PyInt 1) = Inl ValueError"
  by code_simp

text \<open>
  The specification's scenario (three pieces into column 3, two into column 2, one
  more into column 3) leaves column 3 with four pieces, so a further \<open>play(3, _)\<close>
  succeeds: the scenario does not fill the column.
\<close>

lemma spec_scenario_column_not_full:
  "case play_seq new_board spec_scenario_moves of
     Inl _ \<Rightarrow> False
   | Inr b \<Rightarrow> length (column (grid b) 3) = 4 \<and> can_play b 3"
  by code_simp

text \<open>
  Four int-0 pieces on the bottom row, columns 0--3, win for \<open>'0'\<close> and not for
  \<open>'1'\<close>; the same row of int-1 pieces wins for \<open>'1'\<close> only.
\<close>

lemma bottom_row_wins:
  "(case play_seq new_board zero_row_moves of
      Inl _ \<Rightarrow> False | Inr b \<Rightarrow> is_winning b ''0'' \<and> \<not> is_winning b ''1'') \<and>
   (case play_seq new_board one_row_moves of
      Inl _ \<Rightarrow> False | Inr b \<Rightarrow> is_winning b ''1'' \<and> \<not> is_winning b ''0'')"
  by code_simp

text \<open>
  The unit test \<open>test_play_middle\<close> (\<open>src/src/tests/main_test.py\<close>): after
  \<open>play(3, 0)\<close> on an empty board, \<open>print_board\<close> gives the expected text.
\<close>

lemma test_play_middle:
  "case play new_board 3 (PyInt 0) of
     Inl _ \<Rightarrow> False
   | Inr b \<Rightarrow> print_board b =
       ''| | | | | | | |\<newline>| | | | | | | |\<newline>| | | | | | | |\<newline>| | | | | | | |\<newline>'' @
       ''| | | | | | | |\<newline>| | | |0| | | |\<newline> 0 1 2 3 4 5 6''"
  by code_simp

text \<open>
  With \<open>'0'\<close> on the bottom row in columns 0--2 and column 3 open, playing column 3
  wins at once. Searching to depth 3 as the string \<open>'0'\<close>, the engine picks column 3;
  as the int \<open>0\<close> that the driver passes, it picks column 0, because its "opponent"
  also drops \<open>'0'\<close> pieces and column 0 wins two plies later as well.
\<close>

lemma engine_int0_misses_win:
  "case play_seq new_board near_win_moves of
     Inl _ \<Rightarrow> False
   | Inr b \<Rightarrow>
       (case play b 3 (PyInt 0) of Inl _ \<Rightarrow> False | Inr b' \<Rightarrow> is_winning b' ''0'') \<and>
       minimax hd b 3 NegInf PosInf True (PyStr ''0'') = Inr (Fin 1000000, Some 3) \<and>
       minimax hd b 3 NegInf PosInf True (PyInt 0) = Inr (Fin 1000000, Some 0)"
  by code_simp

text \<open>
  RESET does not reset the game: the new game runs in a nested \<open>main()\<close>, and
  when it is won, the outer activation resumes the old game, with its old board (one
  piece in column 0), and passes the turn back to piece 0.
\<close>

lemma reset_resumes_old_game:
  "case play new_board 0 (PyInt 0) of
     Inl _ \<Rightarrow> False
   | Inr b \<Rightarrow> run_main hd reset_lines = Running \<lparr>sboard = b, spiece = 0, smove = Some 0\<rparr> []"
  by code_simp

section \<open>Witnesses\<close>

lemma new_board_invariants:
  "wf_grid (grid new_board)" "gravity (grid new_board)" "can_play new_board 3"
  by code_simp+

lemma new_board_play3:
  obtains b' where "play new_board 3 (PyInt 0) = Inr b'"
  using new_board_invariants(3) play_Inr_iff by blast

theorem play_board_inv_witness:
  "board_inv (grid new_board) \<and>
   (case play new_board 3 (PyInt 0) of Inl _ \<Rightarrow> False | Inr b' \<Rightarrow> board_inv (grid b'))"
proof -
  obtain b' where p: "play new_board 3 (PyInt 0) = Inr b'" by (rule new_board_play3)
  have inv: "board_inv (grid new_board)"
    using new_board_invariants(1,2) by (simp add: board_inv_def)
  from Board.play_board_inv [OF inv p] p inv show ?thesis by simp
qed

theorem play_stacks_witness:
  "wf_grid (grid new_board) \<and> gravity (grid new_board) \<and> py_str (PyInt 0) \<noteq> '' '' \<and>
   (case play new_board 3 (PyInt 0) of
      Inl _ \<Rightarrow> False
    | Inr b' \<Rightarrow> stacks (grid b') =
        (stacks (grid new_board))[3 := stacks (grid new_board) ! 3 @ [py_str (PyInt 0)]])"
proof -
  obtain b' where p: "play new_board 3 (PyInt 0) = Inr b'" by (rule new_board_play3)
  have vis: "py_str (PyInt 0) \<noteq> '' ''" by simp
  from Board.play_stacks [OF new_board_invariants(1,2) p vis] p new_board_invariants(1,2) vis
  show ?thesis by simp
qed

theorem minimax_window_witness:
  "Fin 0 < Fin 10 \<and>
   (\<exists>v c. minimax hd new_board 1 (Fin 0) (Fin 10) True (PyInt 1) = Inr (v, c) \<and>
      max (Fin 0) (min v (Fin 10)) =
      max (Fin 0) (min (mm_value new_board 1 True (PyInt 1)) (Fin 10)))"
proof -
  have w: "Fin 0 < Fin (10 :: int)" by simp
  from Search.minimax_window [OF w, of hd new_board 1 True "PyInt 1"] w show ?thesis by simp
qed

theorem minimax_win_witness:
  "case play_seq new_board zero_row_moves of
     Inl _ \<Rightarrow> False
   | Inr b \<Rightarrow> py_str (PyInt 0) \<in> {''0'', ''1''} \<and> is_winning b (py_str (PyInt 0)) \<and>
       minimax hd b 5 NegInf PosInf True (PyInt 0) = Inr (Fin 1000000, None)"
proof -
  have "case play_seq new_board zero_row_moves of Inl _ \<Rightarrow> False | Inr b \<Rightarrow> is_winning b ''0''"
    by code_simp
  then obtain b where b: "play_seq new_board zero_row_moves = Inr b" "is_winning b ''0''"
    by (rule case_sum_InrE)
  have m: "py_str (PyInt 0) \<in> {''0'', ''1''}" by simp
  from Search.minimax_win [OF m] b(2)
  have "minimax hd b 5 NegInf PosInf True (PyInt 0) = Inr (Fin 1000000, None)" by simp
  with b m show ?thesis by simp
qed

theorem minimax_loss_witness:
  "case play_seq new_board zero_row_moves of
     Inl _ \<Rightarrow> False
   | Inr b \<Rightarrow> is_winning b (opponent_of (PyInt 1)) \<and> \<not> is_winning b (py_str (PyInt 1)) \<and>
       minimax hd b 5 NegInf PosInf False (PyInt 1) = Inr (Fin (-1000000), None)"
proof -
  have "case play_seq new_board zero_row_moves of
          Inl _ \<Rightarrow> False | Inr b \<Rightarrow> is_winning b ''0'' \<and> \<not> is_winning b ''1''"
    by code_simp
  then obtain b where b: "play_seq new_board zero_row_moves = Inr b"
    "is_winning b ''0'' \<and> \<not> is_winning b ''1''"
    by (rule case_sum_InrE)
  then have h: "is_winning b (opponent_of (PyInt 1))" "\<not> is_winning b (py_str (PyInt 1))"
    by (simp_all add: opponent_of_def)
  from Search.minimax_loss [OF h] b(1) h show ?thesis by simp
qed

theorem minimax_draw_witness:
  "py_str (PyStr ''1'') \<in> {''0'', ''1''} \<and> get_valid_locations (new_board\<lparr>grid := draw_grid\<rparr>) = [] \<and>
   \<not> is_winning (new_board\<lparr>grid := draw_grid\<rparr>) ''0'' \<and>
   \<not> is_winning (new_board\<lparr>grid := draw_grid\<rparr>) ''1'' \<and>
   minimax hd (new_board\<lparr>grid := draw_grid\<rparr>) 5 NegInf PosInf True (PyStr ''1'') = Inr (Fin 0, None)"
proof -
  have h: "py_str (PyStr ''1'') \<in> {''0'', ''1''}"
    "get_valid_locations (new_board\<lparr>grid := draw_grid\<rparr>) = []"
    "\<not> is_winning (new_board\<lparr>grid := draw_grid\<rparr>) ''0''"
    "\<not> is_winning (new_board\<lparr>grid := draw_grid\<rparr>) ''1''"
    by code_simp+
  from Search.minimax_draw [OF h] h show ?thesis by simp
qed

theorem minimax_int0_loss_as_draw_witness:
  "case play_seq new_board one_row_moves of
     Inl _ \<Rightarrow> False
   | Inr b \<Rightarrow> is_winning b ''1'' \<and> \<not> is_winning b ''0'' \<and>
       minimax hd b 5 NegInf PosInf True (PyInt 0) = Inr (Fin 0, None)"
proof -
  have "case play_seq new_board one_row_moves of
          Inl _ \<Rightarrow> False | Inr b \<Rightarrow> is_winning b ''1'' \<and> \<not> is_winning b ''0''"
    by code_simp
  then obtain b where b: "play_seq new_board one_row_moves = Inr b"
    "is_winning b ''1''" "\<not> is_winning b ''0''"
    by (rule case_sum_InrE) blast
  from Search.minimax_int0_loss_as_draw [OF b(2,3)] b show ?thesis by simp
qed

theorem main_step_move_next_turn_witness:
  "case play new_board 3 (PyInt 0) of
     Inl _ \<Rightarrow> False
   | Inr b' \<Rightarrow> \<not> end_logic b' 0 \<and>
       main_step hd (Running start_new []) (move_line 3) =
         Running (start_new\<lparr>sboard := b', smove := Some 3, spiece := change_turn 0\<rparr>) []"
proof -
  have "case play new_board 3 (PyInt 0) of Inl _ \<Rightarrow> False | Inr b' \<Rightarrow> \<not> end_logic b' 0"
    by code_simp
  then obtain b' where p: "play new_board 3 (PyInt 0) = Inr b'" and ne: "\<not> end_logic b' 0"
    by (rule case_sum_InrE)
  have s: "sboard start_new = new_board" "spiece start_new = 0"
    by (simp_all add: start_new_def)
  from Driver.main_step_move_next_turn [of start_new 3 b' hd "[]"] p ne s
  show ?thesis by simp
qed

theorem main_step_move_win_exits_witness:
  "case play_seq new_board near_win_moves of
     Inl _ \<Rightarrow> False
   | Inr b \<Rightarrow>
       (case play b 3 (PyInt 0) of
          Inl _ \<Rightarrow> False
        | Inr b' \<Rightarrow> end_logic b' 0 \<and>
            main_step hd (Running \<lparr>sboard = b, spiece = 0, smove = None\<rparr> []) (move_line 3) = Exited)"
proof -
  have "case play_seq new_board near_win_moves of
          Inl _ \<Rightarrow> False
        | Inr b \<Rightarrow> (case play b 3 (PyInt 0) of Inl _ \<Rightarrow> False | Inr b' \<Rightarrow> end_logic b' 0)"
    by code_simp
  then obtain b where b: "play_seq new_board near_win_moves = Inr b"
    and "case play b 3 (PyInt 0) of Inl _ \<Rightarrow> False | Inr b' \<Rightarrow> end_logic b' 0"
    by (rule case_sum_InrE)
  then obtain b' where p: "play b 3 (PyInt 0) = Inr b'" and w: "end_logic b' 0"
    by (blast elim: case_sum_InrE)
  from Driver.main_step_move_win_exits [of "\<lparr>sboard = b, spiece = 0, smove = None\<rparr>" 3 b' hd] p w b
  show ?thesis by simp
qed

theorem main_step_move_illegal_witness:
  "\<not> can_play (sboard start_new) 7 \<and>
   main_step hd (Running start_new []) (move_line 7) = Crashed ValueError"
proof -
  have h: "\<not> can_play (sboard start_new) 7"
    by (simp add: start_new_def can_play_def board_dims)
  from Driver.main_step_move_illegal [OF h, of hd "[]"] h show ?thesis by simp
qed

theorem main_step_play_full_board_witness:
  "get_valid_locations (sboard draw_session) = [] \<and>
   main_step hd (Running draw_session []) ''PLAY'' = Crashed TypeError"
proof -
  have h: "get_valid_locations (sboard draw_session) = []"
    by code_simp
  from Driver.main_step_play_full_board [OF h, of hd "[]"] h show ?thesis by simp
qed

theorem play_command_legal_witness:
  "\<not> is_terminal_node (sboard start_new) \<and>
   (\<exists>c b'. can_play (sboard start_new) c \<and> play (sboard start_new) c (PyInt 0) = Inr b' \<and>
      run_command hd start_new ''PLAY'' = Inr (start_new\<lparr>sboard := b', smove := Some c\<rparr>))"
proof -
  have h: "\<not> is_terminal_node (sboard start_new)"
    by code_simp
  have z: "spiece start_new = 0"
    by (simp add: start_new_def)
  from Driver.play_command_legal [OF h, of hd] h z show ?thesis by simp
qed

theorem main_step_no_keyword_witness:
  "\<not> sublist ''PLAY'' (py_strip '' '') \<and> \<not> sublist ''MOVE'' (py_strip '' '') \<and>
   \<not> sublist ''RESET'' (py_strip '' '') \<and> \<not> end_logic (sboard start_new) (spiece start_new) \<and>
   main_step hd (Running start_new []) '' '' = Running (start_new\<lparr>spiece := 1\<rparr>) []"
proof -
  have h: "\<not> sublist ''PLAY'' (py_strip '' '')" "\<not> sublist ''MOVE'' (py_strip '' '')"
    "\<not> sublist ''RESET'' (py_strip '' '')" "\<not> end_logic (sboard start_new) (spiece start_new)"
    by code_simp+
  have c: "change_turn (spiece start_new) = 1"
    by (simp add: start_new_def change_turn_def)
  from Driver.main_step_no_keyword [OF h, of hd "[]"] h c show ?thesis by simp
qed

theorem eval_board_play_step_witness:
  "wf_grid (grid new_board) \<and> py_str (PyInt 0) \<noteq> '' '' \<and>
   \<not> is_winning new_board (py_str (PyInt 0)) \<and> \<not> is_winning new_board (opponent_of (PyInt 0)) \<and>
   (case play new_board 3 (PyInt 0) of
      Inl _ \<Rightarrow> False
    | Inr b' \<Rightarrow> \<not> is_winning b' (py_str (PyInt 0)) \<and> \<not> is_winning b' (opponent_of (PyInt 0)) \<and>
        eval_board b' (PyInt 0) = eval_board new_board (PyInt 0) + 3)"
proof -
  have before: "wf_grid (grid new_board)" "py_str (PyInt 0) \<noteq> '' ''"
    "\<not> is_winning new_board (py_str (PyInt 0))" "\<not> is_winning new_board (opponent_of (PyInt 0))"
    by code_simp+
  have "case play new_board 3 (PyInt 0) of
          Inl _ \<Rightarrow> False
        | Inr b' \<Rightarrow> \<not> is_winning b' (py_str (PyInt 0)) \<and> \<not> is_winning b' (opponent_of (PyInt 0))"
    by code_simp
  then obtain b' where p: "play new_board 3 (PyInt 0) = Inr b'"
    and after: "\<not> is_winning b' (py_str (PyInt 0))" "\<not> is_winning b' (opponent_of (PyInt 0))"
    by (rule case_sum_InrE) blast
  from Eval.eval_board_play_step [OF before(1) p before(2) before(3,4) after] p before after
  show ?thesis by (simp add: COLS_def)
qed

theorem can_play_stacks_witness:
  "board_inv (grid new_board) \<and>
   (can_play new_board 3 \<longleftrightarrow> 0 \<le> (3::int) \<and> 3 < int COLS \<and> length (stacks (grid new_board) ! 3) < ROWS)"
  using Board.can_play_stacks [OF new_board_inv, of 3] new_board_inv by simp

theorem minimax_root_choice_witness:
  "\<not> is_terminal_node new_board \<and>
   minimax hd new_board (Suc 0) NegInf PosInf True (PyInt 1) =
     Inr (maxs (map (child_value new_board 0 (PyInt 1)) (get_valid_locations new_board)),
          Some (first_best (child_value new_board 0 (PyInt 1)) (get_valid_locations new_board)))"
proof -
  have h: "\<not> is_terminal_node new_board" by code_simp
  from Choice.minimax_root_choice [OF h, of hd 0 "PyInt 1"] h show ?thesis by simp
qed

theorem minimax_takes_first_win_witness:
  "case play_seq new_board near_win_moves of
     Inl _ \<Rightarrow> False
   | Inr b \<Rightarrow> wf_grid (grid b) \<and> \<not> is_terminal_node b \<and>
       list_ex (wins_by b (PyInt 0)) (get_valid_locations b) \<and>
       hd (filter (wins_by b (PyInt 0)) (get_valid_locations b)) = 3 \<and>
       minimax hd b 1 NegInf PosInf True (PyInt 0) = Inr (Fin 1000000, Some 3)"
proof -
  have "case play_seq new_board near_win_moves of
          Inl _ \<Rightarrow> False
        | Inr b \<Rightarrow> wf_grid (grid b) \<and> \<not> is_terminal_node b \<and>
            list_ex (wins_by b (PyInt 0)) (get_valid_locations b) \<and>
            hd (filter (wins_by b (PyInt 0)) (get_valid_locations b)) = 3"
    by code_simp
  then obtain b where b: "play_seq new_board near_win_moves = Inr b"
    and h: "wf_grid (grid b)" "\<not> is_terminal_node b"
      "list_ex (wins_by b (PyInt 0)) (get_valid_locations b)"
      "hd (filter (wins_by b (PyInt 0)) (get_valid_locations b)) = 3"
    by (rule case_sum_InrE) blast
  from Choice.minimax_takes_first_win [OF h(1-3), of hd] b h show ?thesis by simp
qed

theorem play_replay_witness:
  "board_inv (grid new_board) \<and> stacks (grid new_board) = replay (history new_board) \<and>
   py_str (PyInt 0) \<noteq> '' '' \<and>
   (case play new_board 3 (PyInt 0) of
      Inl _ \<Rightarrow> False | Inr b' \<Rightarrow> stacks (grid b') = replay (history b'))"
proof -
  have rep: "stacks (grid new_board) = replay (history new_board)" "py_str (PyInt 0) \<noteq> '' ''"
    by code_simp+
  obtain b' where p: "play new_board 3 (PyInt 0) = Inr b'" by (rule new_board_play3)
  from Board.play_replay [OF new_board_inv rep(1) p rep(2)] p rep new_board_inv
  show ?thesis by simp
qed

theorem print_board_cell_witness:
  "case play new_board 3 (PyInt 0) of
     Inl _ \<Rightarrow> False
   | Inr b \<Rightarrow> wf_grid (grid b) \<and> list_all (list_all (\<lambda>s. length s = 1)) (grid b) \<and>
       (5::nat) < ROWS \<and> (3::nat) < COLS \<and> print_board b ! 87 = CHR ''0''"
proof -
  have "case play new_board 3 (PyInt 0) of
          Inl _ \<Rightarrow> False
        | Inr b \<Rightarrow> wf_grid (grid b) \<and> list_all (list_all (\<lambda>s. length s = 1)) (grid b) \<and>
            grid b ! 5 ! 3 ! 0 = CHR ''0''"
    by code_simp
  then obtain b where p: "play new_board 3 (PyInt 0) = Inr b"
    and h: "wf_grid (grid b)" "list_all (list_all (\<lambda>s. length s = 1)) (grid b)"
      and cell: "grid b ! 5 ! 3 ! 0 = CHR ''0''"
    by (rule case_sum_InrE) blast
  have rc: "(5::nat) < ROWS" "(3::nat) < COLS" by (simp_all add: board_dims)
  from Board.print_board_cell [OF h rc] p h rc cell show ?thesis by simp
qed

theorem reset_resumes_caller_witness:
  "case play_seq new_board near_win_moves of
     Inl _ \<Rightarrow> False
   | Inr b \<Rightarrow>
       (case play b 3 (PyInt 0) of
          Inl _ \<Rightarrow> False
        | Inr b' \<Rightarrow> end_logic b' 0 \<and> \<not> end_logic (sboard start_new) (spiece start_new) \<and>
            main_step hd (Running start_new []) ''RESET'' = Running start_new [start_new] \<and>
            main_step hd (Running \<lparr>sboard = b, spiece = 0, smove = None\<rparr> [start_new]) (move_line 3) =
              Running (start_new\<lparr>spiece := 1\<rparr>) [])"
proof -
  have "case play_seq new_board near_win_moves of
          Inl _ \<Rightarrow> False
        | Inr b \<Rightarrow> (case play b 3 (PyInt 0) of Inl _ \<Rightarrow> False | Inr b' \<Rightarrow> end_logic b' 0)"
    by code_simp
  then obtain b where b: "play_seq new_board near_win_moves = Inr b"
    and "case play b 3 (PyInt 0) of Inl _ \<Rightarrow> False | Inr b' \<Rightarrow> end_logic b' 0"
    by (rule case_sum_InrE)
  then obtain b' where p: "play b 3 (PyInt 0) = Inr b'" and w: "end_logic b' 0"
    by (blast elim: case_sum_InrE)
  have ne: "\<not> end_logic (sboard start_new) (spiece start_new)" by code_simp
  have t: "change_turn (spiece start_new) = 1" by (simp add: start_new_def change_turn_def)
  from Driver.reset_resumes_caller [of "\<lparr>sboard = b, spiece = 0, smove = None\<rparr>" 3 b' start_new hd "[]"]
    p w ne b t
  show ?thesis by simp
qed

end
